theory Spec2Isabelle
  imports Complex_Main "HOL-Library.Char_ord" "HOL-Library.List_Lexorder" "HOL-Library.Multiset"
    "HOL-Library.AList"
begin

section \<open>Python values and exceptions\<close>

text \<open>
  The metadata records handled by the module are Python dictionaries from field names to
  values. The fields the code reads (\<open>_uid\<close>, \<open>beginposition\<close>, \<open>ingestiondate\<close>,
  \<open>title\<close>, \<open>path\<close>) hold a string or \<open>None\<close>; timestamps are ISO strings, which Python
  compares by code point, that is, lexicographically. A dictionary keeps its insertion
  order, so it is an association list.
\<close>

datatype pyval = PNone | PStr string

type_synonym meta = "(string \<times> pyval) list"

text \<open>
  What a call can raise. \<open>ValueError\<close>, \<open>OverflowError\<close>, \<open>TypeError\<close> and
  \<open>OtherException\<close> are instances of Python's \<open>Exception\<close>; \<open>NonException\<close> stands for a \<open>BaseException\<close> that is not one
  (\<open>KeyboardInterrupt\<close>, \<open>SystemExit\<close>), which \<open>except Exception\<close> does not catch.
\<close>

datatype raised =
  ValueError | OverflowError | TypeError | OtherException string | NonException string

fun is_Exception :: "raised \<Rightarrow> bool" where
  "is_Exception (NonException _) = False"
| "is_Exception _ = True"

text \<open>\<open>bool(v)\<close>: \<open>None\<close> and the empty string are falsy.\<close>

fun truthy :: "pyval \<Rightarrow> bool" where
  "truthy PNone = False"
| "truthy (PStr s) = (s \<noteq> [])"

text \<open>\<open>a or b\<close>.\<close>

definition py_or :: "pyval \<Rightarrow> pyval \<Rightarrow> pyval" where
  "py_or a b = (if truthy a then a else b)"

text \<open>\<open>m.get(k)\<close>: the value under \<open>k\<close>, \<open>None\<close> when the key is absent.\<close>

definition get :: "meta \<Rightarrow> string \<Rightarrow> pyval" where
  "get m k = (case map_of m k of None \<Rightarrow> PNone | Some v \<Rightarrow> v)"

text \<open>
  \<open>m[k] = v\<close>: an existing key keeps its place and takes the new value, a new key goes to
  the end.
\<close>

definition setitem :: "meta \<Rightarrow> string \<Rightarrow> pyval \<Rightarrow> meta" where
  "setitem m k v = AList.update k v m"

text \<open>
  \<open>a < b\<close>: two strings compare lexicographically; a comparison with \<open>None\<close> on either
  side raises \<open>TypeError\<close>.
\<close>

fun py_lt :: "pyval \<Rightarrow> pyval \<Rightarrow> raised + bool" where
  "py_lt (PStr a) (PStr b) = Inr (a < b)"
| "py_lt _ _ = Inl TypeError"

section \<open>Calendar dates (\<open>datetime.date\<close>)\<close>

text \<open>
  \<open>datetime.date(year, month, day)\<close> of the standard library first converts its three
  arguments to C integers of 32 bits, and raises \<open>OverflowError\<close> when one of them does
  not fit. It then checks the three fields in this order and raises \<open>ValueError\<close> at the
  first one out of range: the year against \<open>MINYEAR = 1\<close> and \<open>MAXYEAR = 9999\<close>, the
  month against \<open>1..12\<close>, the day against the length of the month.
\<close>

record date =
  year :: int
  month :: int
  day :: int

definition MINYEAR :: int where "MINYEAR = 1"
definition MAXYEAR :: int where "MAXYEAR = 9999"

definition is_leap :: "int \<Rightarrow> bool" where
  "is_leap y = (y mod 4 = 0 \<and> (y mod 100 \<noteq> 0 \<or> y mod 400 = 0))"

definition DAYS_IN_MONTH :: "int list" where
  "DAYS_IN_MONTH = [-1, 31, 28, 31, 30, 31, 30, 31, 31, 30, 31, 30, 31]"

definition days_in_month :: "int \<Rightarrow> int \<Rightarrow> int" where
  "days_in_month y m = (if m = 2 \<and> is_leap y then 29 else DAYS_IN_MONTH ! nat m)"

definition in_c_int :: "int \<Rightarrow> bool" where
  "in_c_int n = (- 2147483648 \<le> n \<and> n \<le> 2147483647)"

definition date_new :: "int \<Rightarrow> int \<Rightarrow> int \<Rightarrow> raised + date" where
  "date_new y m d =
     (if \<not> (in_c_int y \<and> in_c_int m \<and> in_c_int d) then Inl OverflowError
      else if \<not> (MINYEAR \<le> y \<and> y \<le> MAXYEAR) then Inl ValueError
      else if \<not> (1 \<le> m \<and> m \<le> 12) then Inl ValueError
      else if \<not> (1 \<le> d \<and> d \<le> days_in_month y m) then Inl ValueError
      else Inr \<lparr>year = y, month = m, day = d\<rparr>)"

text \<open>
  \<open>isoformat()\<close> is \<open>"%04d-%02d-%02d" % (year, month, day)\<close>. It is only applied to a
  date that passed the checks above, so the year has at most four digits and month and
  day at most two.
\<close>

definition digit :: "int \<Rightarrow> char" where
  "digit n = ''0123456789'' ! nat n"

definition fmt02 :: "int \<Rightarrow> string" where
  "fmt02 n = [digit (n div 10 mod 10), digit (n mod 10)]"

definition fmt04 :: "int \<Rightarrow> string" where
  "fmt04 n = [digit (n div 1000 mod 10), digit (n div 100 mod 10),
              digit (n div 10 mod 10), digit (n mod 10)]"

definition isoformat :: "date \<Rightarrow> string" where
  "isoformat d = fmt04 (year d) @ ''-'' @ fmt02 (month d) @ ''-'' @ fmt02 (day d)"

text \<open>Dates compare by year, then month, then day.\<close>

definition date_le :: "date \<Rightarrow> date \<Rightarrow> bool" where
  "date_le a b =
     (year a < year b \<or> (year a = year b \<and>
        (month a < month b \<or> (month a = month b \<and> day a \<le> day b))))"

section \<open>Date-window builder\<close>

text \<open>
  \<open>_month_limited_date_ranges\<close> of \<open>src/scripts/sentinel_query.py\<close>. The loop runs over
  \<open>range(start_year, end_year + 1)\<close>, which is empty when \<open>start_year > end_year\<close>; the
  first date that cannot be built ends the call with what its construction raises.
\<close>

fun ranges_loop :: "int \<times> int \<Rightarrow> int list \<Rightarrow> (string \<times> string) list
    \<Rightarrow> raised + (string \<times> string) list" where
  "ranges_loop months [] ranges = Inr ranges"
| "ranges_loop months (y # ys) ranges =
     (case date_new y (fst months) 1 of
        Inl e \<Rightarrow> Inl e
      | Inr start \<Rightarrow>
          (case date_new y (snd months) 31 of
             Inl e \<Rightarrow> Inl e
           | Inr end \<Rightarrow> ranges_loop months ys (ranges @ [(isoformat start, isoformat end)])))"

definition month_limited_date_ranges :: "int \<Rightarrow> int \<Rightarrow> int \<times> int
    \<Rightarrow> raised + (string \<times> string) list" where
  "month_limited_date_ranges start_year end_year months =
     ranges_loop months [start_year..end_year] []"

text \<open>The same function of \<open>src/sentinel_query.py\<close>, the original copy.\<close>

fun ranges_loop_orig :: "int \<times> int \<Rightarrow> int list \<Rightarrow> (string \<times> string) list
    \<Rightarrow> raised + (string \<times> string) list" where
  "ranges_loop_orig months [] ranges = Inr ranges"
| "ranges_loop_orig months (y # ys) ranges =
     (case date_new y (fst months) 1 of
        Inl e \<Rightarrow> Inl e
      | Inr start \<Rightarrow>
          (case date_new y (snd months) 31 of
             Inl e \<Rightarrow> Inl e
           | Inr end \<Rightarrow>
               ranges_loop_orig months ys (ranges @ [(isoformat start, isoformat end)])))"

definition month_limited_date_ranges_orig :: "int \<Rightarrow> int \<Rightarrow> int \<times> int
    \<Rightarrow> raised + (string \<times> string) list" where
  "month_limited_date_ranges_orig start_year end_year months =
     ranges_loop_orig months [start_year..end_year] []"

text \<open>
  For stating the results: a year admits its window when both dates can be built, and the
  window is then the pair of their ISO strings.
\<close>

definition window_ok :: "int \<times> int \<Rightarrow> int \<Rightarrow> bool" where
  "window_ok months y =
     (MINYEAR \<le> y \<and> y \<le> MAXYEAR \<and> 1 \<le> fst months \<and> fst months \<le> 12 \<and>
      1 \<le> snd months \<and> snd months \<le> 12 \<and> 31 \<le> days_in_month y (snd months))"

definition window :: "int \<times> int \<Rightarrow> int \<Rightarrow> string \<times> string" where
  "window months y =
     (isoformat \<lparr>year = y, month = fst months, day = 1\<rparr>,
      isoformat \<lparr>year = y, month = snd months, day = 31\<rparr>)"

section \<open>Sorting (\<open>list.sort\<close>)\<close>

text \<open>
  \<open>xs.sort(key=f, reverse=r)\<close> computes the key of every element, then sorts the keyed
  elements with a stable comparison sort that only ever asks \<open>a < b\<close>; with
  \<open>reverse=True\<close> the list is reversed before and after the sort, which keeps equal
  keys in their original order. The sort is written here as an insertion sort: an
  element is placed before the first element that is not smaller than it. On a list of
  two or more elements every key takes part in a comparison, so a key that cannot be
  compared raises whatever the sorting algorithm, and a list of at most one element is
  returned without any comparison.
\<close>

fun py_insert :: "pyval \<times> 'a \<Rightarrow> (pyval \<times> 'a) list \<Rightarrow> raised + (pyval \<times> 'a) list" where
  "py_insert x [] = Inr [x]"
| "py_insert x (y # ys) =
     (case py_lt (fst y) (fst x) of
        Inl e \<Rightarrow> Inl e
      | Inr smaller \<Rightarrow>
          if smaller then
            (case py_insert x ys of Inl e \<Rightarrow> Inl e | Inr zs \<Rightarrow> Inr (y # zs))
          else Inr (x # y # ys))"

fun py_sort_asc :: "(pyval \<times> 'a) list \<Rightarrow> raised + (pyval \<times> 'a) list" where
  "py_sort_asc [] = Inr []"
| "py_sort_asc (x # xs) =
     (case py_sort_asc xs of Inl e \<Rightarrow> Inl e | Inr ys \<Rightarrow> py_insert x ys)"

definition list_sort :: "('a \<Rightarrow> pyval) \<Rightarrow> bool \<Rightarrow> 'a list \<Rightarrow> raised + 'a list" where
  "list_sort key reverse xs =
     (let keyed = map (\<lambda>x. (key x, x)) xs in
      case py_sort_asc (if reverse then rev keyed else keyed) of
        Inl e \<Rightarrow> Inl e
      | Inr sorted_keyed \<Rightarrow>
          Inr (map snd (if reverse then rev sorted_keyed else sorted_keyed)))"

section \<open>Result ranker\<close>

text \<open>
  The statement
  \<open>results.sort(key=lambda m: m.get("beginposition") or m.get("ingestiondate"), reverse=True)\<close>
  of \<open>query_sentinel_products\<close>, the same in both copies.
\<close>

definition sensing_key :: "meta \<Rightarrow> pyval" where
  "sensing_key m = py_or (get m ''beginposition'') (get m ''ingestiondate'')"

definition result_ranker :: "meta list \<Rightarrow> raised + meta list" where
  "result_ranker results = list_sort sensing_key True results"

section \<open>External collaborators, logging and state\<close>

datatype api = SentinelAPI string string string

record SentinelCredentials =
  user :: string
  password :: string
  api_url :: string

definition SENTINEL2_PRODUCTTYPE :: string where
  "SENTINEL2_PRODUCTTYPE = ''S2MSI2A''"

definition DEFAULT_CLOUD_MAX :: real where
  "DEFAULT_CLOUD_MAX = 5"

text \<open>
  The arguments of one \<open>api.query\<close> call. The cloud-cover ceiling is a Python float that
  the code hands on unchanged; it is carried as a real number and never computed with.
\<close>

record query_args =
  area :: string
  date_window :: "string \<times> string"
  platformname :: string
  producttype :: string
  cloudcoverpercentage :: "real \<times> real"

text \<open>What \<open>api.download\<close> returns: a dictionary, or any other value.\<close>

datatype download_result = ResDict meta | ResOther pyval

text \<open>
  The file system and the catalog service are outside the program. They are functions of
  a world \<open>'w\<close> that each call may change; a call returns its value or what it raises.
  \<open>api.query\<close> returns a dictionary from identifier to metadata record, in its iteration
  order; the records of a response are separate objects, so storing a key in one leaves
  the others as they are.
\<close>

record 'w collaborators =
  path_exists :: "string \<Rightarrow> 'w \<Rightarrow> bool"
  makedirs :: "string \<Rightarrow> 'w \<Rightarrow> raised + 'w"
  api_query :: "api \<Rightarrow> query_args \<Rightarrow> 'w \<Rightarrow> (raised + (string \<times> meta) list) \<times> 'w"
  api_download :: "api \<Rightarrow> pyval \<Rightarrow> string \<Rightarrow> 'w \<Rightarrow> (raised + download_result) \<times> 'w"

text \<open>One constructor for each call to the module's logger.\<close>

datatype log_record =
    Info_connecting string
  | Info_querying_months int int int int
  | Info_querying_may_august int int
  | Debug_querying string string
  | Info_found nat
  | Warning_missing_uid meta
  | Info_downloading pyval pyval
  | Exception_failed pyval raised
  | Info_downloaded nat

record 'w state =
  world :: 'w
  logs :: "log_record list"

definition emit :: "log_record \<Rightarrow> 'w state \<Rightarrow> 'w state" where
  "emit r st = st\<lparr>logs := logs st @ [r]\<rparr>"

definition ensure_dir :: "'w collaborators \<Rightarrow> string \<Rightarrow> 'w \<Rightarrow> raised + 'w" where
  "ensure_dir ext path w =
     (if \<not> path_exists ext path w then makedirs ext path w else Inr w)"

section \<open>Catalog query\<close>

text \<open>
  The inner loop of \<open>query_sentinel_products\<close>: every record of a response gets its
  identifier under \<open>_uid\<close> and is appended to the results.
\<close>

fun tag_products :: "(string \<times> meta) list \<Rightarrow> meta list \<Rightarrow> meta list" where
  "tag_products [] results = results"
| "tag_products ((uid, meta) # products) results =
     tag_products products (results @ [setitem meta ''_uid'' (PStr uid)])"

text \<open>The outer loop: one query per date window; a query that raises ends the call.\<close>

fun query_loop :: "'w collaborators \<Rightarrow> api \<Rightarrow> string \<Rightarrow> string \<Rightarrow> string \<Rightarrow> real
    \<Rightarrow> (string \<times> string) list \<Rightarrow> meta list \<Rightarrow> 'w state \<Rightarrow> raised + (meta list \<times> 'w state)" where
  "query_loop ext api wkt_area platform product_type cloud_max [] results st =
     Inr (results, st)"
| "query_loop ext api wkt_area platform product_type cloud_max
     ((start_iso, end_iso) # date_ranges) results st =
     (let st1 = emit (Debug_querying start_iso end_iso) st in
      case api_query ext api
             \<lparr>area = wkt_area, date_window = (start_iso, end_iso), platformname = platform,
              producttype = product_type, cloudcoverpercentage = (0, cloud_max)\<rparr>
             (world st1) of
        (Inl e, w) \<Rightarrow> Inl e
      | (Inr products, w) \<Rightarrow>
          query_loop ext api wkt_area platform product_type cloud_max date_ranges
            (tag_products products results) (st1\<lparr>world := w\<rparr>))"

text \<open>\<open>query_sentinel_products\<close> of \<open>src/scripts/sentinel_query.py\<close>.\<close>

definition query_sentinel_products :: "'w collaborators \<Rightarrow> SentinelCredentials \<Rightarrow> string
    \<Rightarrow> int \<Rightarrow> int \<Rightarrow> real \<Rightarrow> string \<Rightarrow> string \<Rightarrow> int \<times> int \<Rightarrow> 'w state
    \<Rightarrow> raised + (meta list \<times> 'w state)" where
  "query_sentinel_products ext creds wkt_area start_year end_year cloud_max product_type
     platform months st =
     (let st1 = emit (Info_connecting (api_url creds)) st;
          api = SentinelAPI (user creds) (password creds) (api_url creds)
      in case month_limited_date_ranges start_year end_year months of
           Inl e \<Rightarrow> Inl e
         | Inr date_ranges \<Rightarrow>
             (let st2 = emit (Info_querying_months (fst months) (snd months)
                                start_year end_year) st1
              in case query_loop ext api wkt_area platform product_type cloud_max
                        date_ranges [] st2 of
                   Inl e \<Rightarrow> Inl e
                 | Inr (results, st3) \<Rightarrow>
                     (case result_ranker results of
                        Inl e \<Rightarrow> Inl e
                      | Inr ranked \<Rightarrow> Inr (ranked, emit (Info_found (length ranked)) st3))))"

text \<open>
  \<open>query_sentinel_products\<close> of \<open>src/sentinel_query.py\<close>: no \<open>months\<close> parameter, the
  windows are always May to August.
\<close>

fun tag_products_orig :: "(string \<times> meta) list \<Rightarrow> meta list \<Rightarrow> meta list" where
  "tag_products_orig [] results = results"
| "tag_products_orig ((uid, meta) # products) results =
     tag_products_orig products (results @ [setitem meta ''_uid'' (PStr uid)])"

fun query_loop_orig :: "'w collaborators \<Rightarrow> api \<Rightarrow> string \<Rightarrow> string \<Rightarrow> string \<Rightarrow> real
    \<Rightarrow> (string \<times> string) list \<Rightarrow> meta list \<Rightarrow> 'w state \<Rightarrow> raised + (meta list \<times> 'w state)" where
  "query_loop_orig ext api wkt_area platform product_type cloud_max [] results st =
     Inr (results, st)"
| "query_loop_orig ext api wkt_area platform product_type cloud_max
     ((start_iso, end_iso) # date_ranges) results st =
     (let st1 = emit (Debug_querying start_iso end_iso) st in
      case api_query ext api
             \<lparr>area = wkt_area, date_window = (start_iso, end_iso), platformname = platform,
              producttype = product_type, cloudcoverpercentage = (0, cloud_max)\<rparr>
             (world st1) of
        (Inl e, w) \<Rightarrow> Inl e
      | (Inr products, w) \<Rightarrow>
          query_loop_orig ext api wkt_area platform product_type cloud_max date_ranges
            (tag_products_orig products results) (st1\<lparr>world := w\<rparr>))"

definition query_sentinel_products_orig :: "'w collaborators \<Rightarrow> SentinelCredentials \<Rightarrow> string
    \<Rightarrow> int \<Rightarrow> int \<Rightarrow> real \<Rightarrow> string \<Rightarrow> string \<Rightarrow> 'w state
    \<Rightarrow> raised + (meta list \<times> 'w state)" where
  "query_sentinel_products_orig ext creds wkt_area start_year end_year cloud_max product_type
     platform st =
     (let st1 = emit (Info_connecting (api_url creds)) st;
          api = SentinelAPI (user creds) (password creds) (api_url creds)
      in case month_limited_date_ranges_orig start_year end_year (5, 8) of
           Inl e \<Rightarrow> Inl e
         | Inr date_ranges \<Rightarrow>
             (let st2 = emit (Info_querying_may_august start_year end_year) st1
              in case query_loop_orig ext api wkt_area platform product_type cloud_max
                        date_ranges [] st2 of
                   Inl e \<Rightarrow> Inl e
                 | Inr (results, st3) \<Rightarrow>
                     (case result_ranker results of
                        Inl e \<Rightarrow> Inl e
                      | Inr ranked \<Rightarrow> Inr (ranked, emit (Info_found (length ranked)) st3))))"

section \<open>Download orchestrator\<close>

text \<open>\<open>if api is None: api = SentinelAPI(creds.user, creds.password, creds.api_url)\<close>.\<close>

definition api_or_default :: "SentinelCredentials \<Rightarrow> api option \<Rightarrow> api" where
  "api_or_default creds api_arg =
     (case api_arg of
        None \<Rightarrow> SentinelAPI (user creds) (password creds) (api_url creds)
      | Some a \<Rightarrow> a)"

text \<open>\<open>res.get("path") if isinstance(res, dict) else res\<close>.\<close>

fun local_path :: "download_result \<Rightarrow> pyval" where
  "local_path (ResDict d) = get d ''path''"
| "local_path (ResOther v) = v"

text \<open>
  The loop of \<open>download_products\<close> in \<open>src/scripts/sentinel_query.py\<close>. An entry whose
  \<open>_uid\<close> is falsy is logged and skipped. \<open>except Exception\<close> catches and logs what the
  download raises when it is an \<open>Exception\<close>; anything else leaves the function.
\<close>

fun download_loop :: "'w collaborators \<Rightarrow> api \<Rightarrow> string \<Rightarrow> meta list \<Rightarrow> pyval list
    \<Rightarrow> 'w state \<Rightarrow> raised + (pyval list \<times> 'w state)" where
  "download_loop ext api out_dir [] downloaded st = Inr (downloaded, st)"
| "download_loop ext api out_dir (meta # products) downloaded st =
     (let uid = get meta ''_uid'' in
      if \<not> truthy uid then
        download_loop ext api out_dir products downloaded (emit (Warning_missing_uid meta) st)
      else
        (let st1 = emit (Info_downloading (get meta ''title'') uid) st in
         case api_download ext api uid out_dir (world st1) of
           (Inr res, w) \<Rightarrow>
             download_loop ext api out_dir products (downloaded @ [local_path res])
               (st1\<lparr>world := w\<rparr>)
         | (Inl e, w) \<Rightarrow>
             if is_Exception e then
               download_loop ext api out_dir products downloaded
                 (emit (Exception_failed uid e) (st1\<lparr>world := w\<rparr>))
             else Inl e))"

definition download_products :: "'w collaborators \<Rightarrow> SentinelCredentials \<Rightarrow> meta list
    \<Rightarrow> string \<Rightarrow> api option \<Rightarrow> 'w state \<Rightarrow> raised + (pyval list \<times> 'w state)" where
  "download_products ext creds products out_dir api_arg st =
     (case ensure_dir ext out_dir (world st) of
        Inl e \<Rightarrow> Inl e
      | Inr w \<Rightarrow>
          (let api = api_or_default creds api_arg
           in case download_loop ext api out_dir products [] (st\<lparr>world := w\<rparr>) of
                Inl e \<Rightarrow> Inl e
              | Inr (downloaded, st1) \<Rightarrow>
                  Inr (downloaded, emit (Info_downloaded (length downloaded)) st1)))"

text \<open>The same function of \<open>src/sentinel_query.py\<close>.\<close>

fun download_loop_orig :: "'w collaborators \<Rightarrow> api \<Rightarrow> string \<Rightarrow> meta list \<Rightarrow> pyval list
    \<Rightarrow> 'w state \<Rightarrow> raised + (pyval list \<times> 'w state)" where
  "download_loop_orig ext api out_dir [] downloaded st = Inr (downloaded, st)"
| "download_loop_orig ext api out_dir (meta # products) downloaded st =
     (let uid = get meta ''_uid'' in
      if \<not> truthy uid then
        download_loop_orig ext api out_dir products downloaded
          (emit (Warning_missing_uid meta) st)
      else
        (let st1 = emit (Info_downloading (get meta ''title'') uid) st in
         case api_download ext api uid out_dir (world st1) of
           (Inr res, w) \<Rightarrow>
             download_loop_orig ext api out_dir products (downloaded @ [local_path res])
               (st1\<lparr>world := w\<rparr>)
         | (Inl e, w) \<Rightarrow>
             if is_Exception e then
               download_loop_orig ext api out_dir products downloaded
                 (emit (Exception_failed uid e) (st1\<lparr>world := w\<rparr>))
             else Inl e))"

definition download_products_orig :: "'w collaborators \<Rightarrow> SentinelCredentials \<Rightarrow> meta list
    \<Rightarrow> string \<Rightarrow> api option \<Rightarrow> 'w state \<Rightarrow> raised + (pyval list \<times> 'w state)" where
  "download_products_orig ext creds products out_dir api_arg st =
     (case ensure_dir ext out_dir (world st) of
        Inl e \<Rightarrow> Inl e
      | Inr w \<Rightarrow>
          (let api = api_or_default creds api_arg
           in case download_loop_orig ext api out_dir products [] (st\<lparr>world := w\<rparr>) of
                Inl e \<Rightarrow> Inl e
              | Inr (downloaded, st1) \<Rightarrow>
                  Inr (downloaded, emit (Info_downloaded (length downloaded)) st1)))"

section \<open>Notions used in the statements\<close>

text \<open>The string held by a value that is not \<open>None\<close>.\<close>

fun str_of :: "pyval \<Rightarrow> string" where
  "str_of (PStr s) = s"
| "str_of PNone = []"

text \<open>The records for which a skip was logged, in the order of the log.\<close>

fun skipped :: "log_record list \<Rightarrow> meta list" where
  "skipped [] = []"
| "skipped (Warning_missing_uid m # rs) = m # skipped rs"
| "skipped (_ # rs) = skipped rs"

text \<open>
  The answers of the service to the download calls of a batch: one call for each entry
  that has an identifier, in the order of the entries, each made in the world that the
  call before it left. The result pairs every such entry with what its call returned
  or raised, and ends with the world after the last call.
\<close>

fun download_calls :: "'w collaborators \<Rightarrow> api \<Rightarrow> string \<Rightarrow> meta list \<Rightarrow> 'w
    \<Rightarrow> (meta \<times> (raised + download_result)) list \<times> 'w" where
  "download_calls ext api out_dir [] w = ([], w)"
| "download_calls ext api out_dir (m # ms) w =
     (if \<not> truthy (get m ''_uid'') then download_calls ext api out_dir ms w
      else
        (case api_download ext api (get m ''_uid'') out_dir w of
           (r, w1) \<Rightarrow>
             (case download_calls ext api out_dir ms w1 of
                (rs, w2) \<Rightarrow> ((m, r) # rs, w2))))"

text \<open>The local paths of the calls that returned, in order.\<close>

fun successful_paths :: "(meta \<times> (raised + download_result)) list \<Rightarrow> pyval list" where
  "successful_paths [] = []"
| "successful_paths ((m, Inr res) # rs) = local_path res # successful_paths rs"
| "successful_paths ((m, Inl e) # rs) = successful_paths rs"

text \<open>The identifier and the exception of the calls that raised, in order.\<close>

fun failures :: "(meta \<times> (raised + download_result)) list \<Rightarrow> (pyval \<times> raised) list" where
  "failures [] = []"
| "failures ((m, Inl e) # rs) = (get m ''_uid'', e) # failures rs"
| "failures ((m, Inr res) # rs) = failures rs"

text \<open>The download failures that were logged, in the order of the log.\<close>

fun caught :: "log_record list \<Rightarrow> (pyval \<times> raised) list" where
  "caught [] = []"
| "caught (Exception_failed uid e # rs) = (uid, e) # caught rs"
| "caught (_ # rs) = caught rs"

text \<open>
  What a call returns or raises together with the world it leaves, the log put aside.
\<close>

definition without_logs :: "raised + ('a \<times> 'w state) \<Rightarrow> raised + ('a \<times> 'w)" where
  "without_logs r = (case r of Inl e \<Rightarrow> Inl e | Inr (x, st) \<Rightarrow> Inr (x, world st))"

section \<open>Example data\<close>

text \<open>
  Three catalog entries: \<open>a\<close> without a timestamp, \<open>b\<close> sensed in 2021, \<open>c\<close> in 2020.
\<close>

definition entry_a :: meta where
  "entry_a = [(''_uid'', PStr ''a''), (''beginposition'', PNone)]"

definition entry_b :: meta where
  "entry_b = [(''_uid'', PStr ''b''), (''beginposition'', PStr ''2021-06-01'')]"

definition entry_c :: meta where
  "entry_c = [(''_uid'', PStr ''c''), (''beginposition'', PStr ''2020-06-01'')]"

text \<open>An entry with no identifier, and one whose download fails.\<close>

definition entry_anonymous :: meta where
  "entry_anonymous = [(''title'', PStr ''untitled'')]"

definition entry_bad :: meta where
  "entry_bad = [(''_uid'', PStr ''bad''), (''title'', PStr ''unreachable'')]"

text \<open>
  A small world: a counter of the calls made to the service. Every directory exists,
  every query answers one record stamped with the start of its window, and every
  download succeeds except that of the identifier \<open>bad\<close>, which times out.
\<close>

definition example_service :: "nat collaborators" where
  "example_service =
     \<lparr>path_exists = (\<lambda>path w. True),
      makedirs = (\<lambda>path w. Inr w),
      api_query = (\<lambda>api q w.
        (Inr [(''u1'', [(''beginposition'', PStr (fst (date_window q)))])], Suc w)),
      api_download = (\<lambda>api uid out_dir w.
        (case uid of
           PNone \<Rightarrow> Inl TypeError
         | PStr s \<Rightarrow>
             if s = ''bad'' then Inl (OtherException ''timeout'')
             else Inr (ResDict [(''path'', PStr (out_dir @ ''/'' @ s))]),
         Suc w))\<rparr>"

definition example_creds :: SentinelCredentials where
  "example_creds = \<lparr>user = ''u'', password = ''p'', api_url = ''https://example.org/''\<rparr>"

definition example_state :: "nat state" where
  "example_state = \<lparr>world = 0, logs = []\<rparr>"

section \<open>Facts about dates and the date-window builder\<close>

lemma month_cases:
  "1 \<le> m \<Longrightarrow> m \<le> 12 \<Longrightarrow> (m::int) \<in> {1,2,3,4,5,6,7,8,9,10,11,12}"
  by simp arith

lemma days_in_month_ge1: "1 \<le> m \<Longrightarrow> m \<le> 12 \<Longrightarrow> 1 \<le> days_in_month y m"
proof -
  assume "1 \<le> m" "m \<le> 12"
  then have "m \<in> {1,2,3,4,5,6,7,8,9,10,11,12}" by (rule month_cases)
  then show ?thesis by (auto simp: days_in_month_def DAYS_IN_MONTH_def)
qed

lemma days_in_month_31:
  "1 \<le> m \<Longrightarrow> m \<le> 12 \<Longrightarrow> (31 \<le> days_in_month y m) = (m \<in> {1, 3, 5, 7, 8, 10, 12})"
proof -
  assume "1 \<le> m" "m \<le> 12"
  then have "m \<in> {1,2,3,4,5,6,7,8,9,10,11,12}" by (rule month_cases)
  then show ?thesis by (auto simp: days_in_month_def DAYS_IN_MONTH_def)
qed


lemma date_new_first:
  "date_new y m 1 = (if MINYEAR \<le> y \<and> y \<le> MAXYEAR \<and> 1 \<le> m \<and> m \<le> 12
     then Inr \<lparr>year = y, month = m, day = 1\<rparr>
     else if in_c_int y \<and> in_c_int m then Inl ValueError else Inl OverflowError)"
  using days_in_month_ge1 [of m y]
  by (auto simp: date_new_def in_c_int_def MINYEAR_def MAXYEAR_def)

lemma date_new_31:
  "date_new y m 31 = (if MINYEAR \<le> y \<and> y \<le> MAXYEAR \<and> 1 \<le> m \<and> m \<le> 12 \<and> 31 \<le> days_in_month y m
     then Inr \<lparr>year = y, month = m, day = 31\<rparr>
     else if in_c_int y \<and> in_c_int m then Inl ValueError else Inl OverflowError)"
  by (auto simp: date_new_def in_c_int_def MINYEAR_def MAXYEAR_def)

lemma ranges_loop_step:
  "ranges_loop months (y # ys) ranges =
     (if window_ok months y then ranges_loop months ys (ranges @ [window months y])
      else Inl (if in_c_int y \<and> in_c_int (fst months) \<and>
                   (in_c_int (snd months) \<or>
                    \<not> (MINYEAR \<le> y \<and> y \<le> MAXYEAR \<and> 1 \<le> fst months \<and> fst months \<le> 12))
                then ValueError else OverflowError))"
  by (auto simp: date_new_first date_new_31 window_ok_def window_def in_c_int_def)

lemma ranges_loop_Inr:
  "(ranges_loop months ys ranges = Inr ws) =
     ((\<forall>y\<in>set ys. window_ok months y) \<and> ws = ranges @ map (window months) ys)"
proof (induction ys arbitrary: ranges)
  case Nil
  show ?case by auto
next
  case (Cons y ys)
  show ?case unfolding ranges_loop_step using Cons.IH by auto
qed

lemma ranges_loop_orig_eq: "ranges_loop_orig months ys ranges = ranges_loop months ys ranges"
  by (induction ys arbitrary: ranges) (simp_all split: sum.splits)

lemma month_limited_date_ranges_Inr:
  "(month_limited_date_ranges sy ey months = Inr ws) =
     ((\<forall>y\<in>{sy..ey}. window_ok months y) \<and> ws = map (window months) [sy..ey])"
  by (simp add: month_limited_date_ranges_def ranges_loop_Inr)

lemma append_le_append: "((xs :: 'a :: linorder list) @ ys \<le> xs @ zs) = (ys \<le> zs)"
  by (induction xs) simp_all

lemma fmt02_month_le:
  assumes "1 \<le> m1" "m1 \<le> 12" "1 \<le> m2" "m2 \<le> 12"
  shows "(fmt02 m1 @ ''-01'' \<le> fmt02 m2 @ ''-31'') = (m1 \<le> m2)"
proof -
  have a: "m1 \<in> {1,2,3,4,5,6,7,8,9,10,11,12}" using assms by (intro month_cases) auto
  have b: "m2 \<in> {1,2,3,4,5,6,7,8,9,10,11,12}" using assms by (intro month_cases) auto
  show ?thesis using a b by (auto simp: fmt02_def digit_def)
qed

lemma fmt02_days: "fmt02 1 = ''01''" "fmt02 31 = ''31''"
  by (simp_all add: fmt02_def digit_def)

lemma window_start_le_end:
  assumes "1 \<le> m1" "m1 \<le> 12" "1 \<le> m2" "m2 \<le> 12"
  shows "(fst (window (m1, m2) y) \<le> snd (window (m1, m2) y)) = (m1 \<le> m2)"
  using fmt02_month_le [OF assms]
  by (simp add: window_def isoformat_def append_le_append fmt02_days)

section \<open>Facts about sorting\<close>

lemma py_lt_str: "a \<noteq> PNone \<Longrightarrow> b \<noteq> PNone \<Longrightarrow> py_lt a b = Inr (str_of a < str_of b)"
  by (cases a; cases b) simp_all

lemma py_lt_none: "a = PNone \<or> b = PNone \<Longrightarrow> py_lt a b = Inl TypeError"
  by (cases a; cases b) simp_all

lemma py_insert_strings:
  "fst x \<noteq> PNone \<Longrightarrow> \<forall>y\<in>set ys. fst y \<noteq> PNone \<Longrightarrow>
     py_insert x ys = Inr (insort_key (str_of \<circ> fst) x ys)"
  by (induction ys) (auto simp: py_lt_str)

lemma py_insert_none:
  "ys \<noteq> [] \<Longrightarrow> fst x = PNone \<or> (\<exists>y\<in>set ys. fst y = PNone) \<Longrightarrow> length ys \<le> 1 \<or> (\<forall>y\<in>set ys. fst y \<noteq> PNone) \<Longrightarrow>
     py_insert x ys = Inl TypeError"
proof (cases ys)
  case Nil
  assume "ys \<noteq> []" with Nil show ?thesis by simp
next
  case (Cons y zs)
  assume h: "fst x = PNone \<or> (\<exists>y\<in>set ys. fst y = PNone)"
    and g: "length ys \<le> 1 \<or> (\<forall>y\<in>set ys. fst y \<noteq> PNone)"
  from h g Cons have "fst x = PNone \<or> fst y = PNone" by auto
  then have "py_lt (fst y) (fst x) = Inl TypeError" by (auto simp: py_lt_none)
  with Cons show ?thesis by simp
qed

lemma py_sort_asc_char:
  "py_sort_asc xs =
     (if length xs \<le> 1 then Inr xs
      else if \<forall>x\<in>set xs. fst x \<noteq> PNone then Inr (sort_key (str_of \<circ> fst) xs)
      else Inl TypeError)"
proof (induction xs)
  case Nil
  show ?case by simp
next
  case (Cons x xs)
  show ?case
  proof (cases "length xs \<le> 1")
    case True
    then have s: "py_sort_asc xs = Inr xs" using Cons.IH by simp
    show ?thesis
    proof (cases xs)
      case Nil
      then show ?thesis by simp
    next
      case (Cons y zs)
      with True have xs: "xs = [y]" by simp
      show ?thesis
      proof (cases "fst x \<noteq> PNone \<and> fst y \<noteq> PNone")
        case True
        then show ?thesis using s xs by (auto simp: py_lt_str)
      next
        case False
        then have "py_lt (fst y) (fst x) = Inl TypeError" by (auto simp: py_lt_none)
        then show ?thesis using s xs False by auto
      qed
    qed
  next
    case long: False
    show ?thesis
    proof (cases "\<forall>y\<in>set xs. fst y \<noteq> PNone")
      case True
      then have s: "py_sort_asc xs = Inr (sort_key (str_of \<circ> fst) xs)"
        using Cons.IH long by simp
      show ?thesis
      proof (cases "fst x = PNone")
        case True
        have "sort_key (str_of \<circ> fst) xs \<noteq> []" using long by (cases xs) auto
        then have "py_insert x (sort_key (str_of \<circ> fst) xs) = Inl TypeError"
          using True \<open>\<forall>y\<in>set xs. fst y \<noteq> PNone\<close> by (intro py_insert_none) auto
        then show ?thesis using s True long by auto
      next
        case False
        then have "py_insert x (sort_key (str_of \<circ> fst) xs)
            = Inr (insort_key (str_of \<circ> fst) x (sort_key (str_of \<circ> fst) xs))"
          using True by (intro py_insert_strings) auto
        then show ?thesis using s False True long by simp
      qed
    next
      case False
      then have "py_sort_asc xs = Inl TypeError" using Cons.IH long by simp
      then show ?thesis using False long by auto
    qed
  qed
qed

lemma insort_key_map:
  "insort_key g (h x) (map h ys) = map h (insort_key (\<lambda>a. g (h a)) x ys)"
  by (induction ys) simp_all

lemma sort_key_map: "sort_key g (map h xs) = map h (sort_key (\<lambda>a. g (h a)) xs)"
  by (induction xs) (simp_all add: insort_key_map)

lemma list_sort_reverse_char:
  "list_sort key True xs =
     (if length xs \<le> 1 then Inr xs
      else if \<forall>x\<in>set xs. key x \<noteq> PNone then Inr (rev (sort_key (str_of \<circ> key) (rev xs)))
      else Inl TypeError)"
proof -
  have c: "(\<lambda>a. (str_of \<circ> fst) (key a, a)) = str_of \<circ> key" by (simp add: fun_eq_iff)
  have "sort_key (str_of \<circ> fst) (rev (map (\<lambda>x. (key x, x)) xs))
      = map (\<lambda>x. (key x, x)) (sort_key (str_of \<circ> key) (rev xs))"
  proof -
    have "sort_key (str_of \<circ> fst) (map (\<lambda>x. (key x, x)) (rev xs))
        = map (\<lambda>x. (key x, x)) (sort_key (\<lambda>a. (str_of \<circ> fst) (key a, a)) (rev xs))"
      by (rule sort_key_map)
    then show ?thesis by (simp only: c rev_map)
  qed
  then have m: "map snd (rev (sort_key (str_of \<circ> fst) (rev (map (\<lambda>x. (key x, x)) xs))))
      = rev (sort_key (str_of \<circ> key) (rev xs))"
    by (simp add: rev_map comp_def)
  have one: "length xs \<le> 1 \<Longrightarrow> rev xs = xs" by (cases xs) auto
  show ?thesis
    unfolding list_sort_def Let_def py_sort_asc_char using m one
    by (auto simp: rev_map comp_def)
qed

lemma result_ranker_char:
  "result_ranker results =
     (if length results \<le> 1 then Inr results
      else if \<forall>m\<in>set results. sensing_key m \<noteq> PNone
        then Inr (rev (sort_key (str_of \<circ> sensing_key) (rev results)))
      else Inl TypeError)"
  unfolding result_ranker_def by (rule list_sort_reverse_char)

lemma short_sort: "length xs \<le> 1 \<Longrightarrow> rev (sort_key f (rev xs)) = xs"
  by (cases xs) auto

lemma result_ranker_strings:
  "\<forall>m\<in>set results. sensing_key m \<noteq> PNone \<Longrightarrow>
     result_ranker results = Inr (rev (sort_key (str_of \<circ> sensing_key) (rev results)))"
  by (simp add: result_ranker_char short_sort)

lemma desc_sorted:
  "sorted_wrt (\<lambda>a b. f b \<le> f a) (rev (sort_key f xs))"
proof -
  have "sorted (map f (sort_key f xs))" by (rule sorted_sort_key)
  then show ?thesis by (simp add: sorted_wrt_rev sorted_wrt_map sorted_map)
qed

lemma desc_stable:
  "filter (\<lambda>y. f y = k) (rev (sort_key f (rev xs))) = filter (\<lambda>y. f y = k) xs"
proof -
  have "filter (\<lambda>y. f y = k) (rev (sort_key f (rev xs)))
      = rev (filter (\<lambda>y. f y = k) (sort_key f (rev xs)))" by (simp add: rev_filter)
  also have "\<dots> = rev (filter (\<lambda>y. f y = k) (rev xs))" by (simp only: sort_key_stable)
  also have "\<dots> = filter (\<lambda>y. f y = k) xs" by (simp add: rev_filter)
  finally show ?thesis .
qed

lemma desc_idem:
  "rev (sort_key f (rev (rev (sort_key f (rev xs))))) = rev (sort_key f (rev xs))"
  by (simp add: sort_key_id_if_sorted)

section \<open>Facts about the download loop\<close>

lemma world_emit: "world (emit r st) = world st"
  by (simp add: emit_def)

lemma logs_emit: "logs (emit r st) = logs st @ [r]"
  by (simp add: emit_def)

lemma skipped_append: "skipped (xs @ ys) = skipped xs @ skipped ys"
  by (induction xs rule: skipped.induct) simp_all

lemma download_loop_skip:
  "\<not> truthy (get m ''_uid'') \<Longrightarrow>
     download_loop ext api out (m # ps) d st =
     download_loop ext api out ps d (emit (Warning_missing_uid m) st)"
  by simp

lemma download_loop_caught:
  "truthy (get m ''_uid'') \<Longrightarrow>
   api_download ext api (get m ''_uid'') out (world st) = (Inl e, w) \<Longrightarrow> is_Exception e \<Longrightarrow>
     download_loop ext api out (m # ps) d st =
     download_loop ext api out ps d
       (emit (Exception_failed (get m ''_uid'') e)
          ((emit (Info_downloading (get m ''title'') (get m ''_uid'')) st)\<lparr>world := w\<rparr>))"
  by (simp add: Let_def world_emit)

lemma download_loop_uncaught:
  "truthy (get m ''_uid'') \<Longrightarrow>
   api_download ext api (get m ''_uid'') out (world st) = (Inl e, w) \<Longrightarrow> \<not> is_Exception e \<Longrightarrow>
     download_loop ext api out (m # ps) d st = Inl e"
  by (simp add: Let_def world_emit)

lemma download_loop_got:
  "truthy (get m ''_uid'') \<Longrightarrow>
   api_download ext api (get m ''_uid'') out (world st) = (Inr res, w) \<Longrightarrow>
     download_loop ext api out (m # ps) d st =
     download_loop ext api out ps (d @ [local_path res])
       ((emit (Info_downloading (get m ''title'') (get m ''_uid'')) st)\<lparr>world := w\<rparr>)"
  by (simp add: Let_def world_emit)

lemma download_loop_counts:
  "download_loop ext api out ps d st = Inr (d', st') \<Longrightarrow>
     length d' \<le> length d + length (filter (\<lambda>m. truthy (get m ''_uid'')) ps) \<and>
     skipped (logs st') = skipped (logs st) @ filter (\<lambda>m. \<not> truthy (get m ''_uid'')) ps"
proof (induction ps arbitrary: d st)
  case Nil
  then show ?case by simp
next
  case (Cons m ps)
  show ?case
  proof (cases "truthy (get m ''_uid'')")
    case False
    with Cons.prems have "download_loop ext api out ps d (emit (Warning_missing_uid m) st) = Inr (d', st')"
      by simp
    from Cons.IH [OF this] False show ?thesis by (simp add: logs_emit skipped_append)
  next
    case True
    obtain r w where r: "api_download ext api (get m ''_uid'') out (world st) = (r, w)"
      by (cases "api_download ext api (get m ''_uid'') out (world st)")
    show ?thesis
    proof (cases r)
      case (Inl e)
      show ?thesis
      proof (cases "is_Exception e")
        case exc: True
        from Cons.prems have "download_loop ext api out ps d
           (emit (Exception_failed (get m ''_uid'') e)
          ((emit (Info_downloading (get m ''title'') (get m ''_uid'')) st)\<lparr>world := w\<rparr>)) = Inr (d', st')"
          unfolding download_loop_caught [OF True r [unfolded Inl] exc] .
        from Cons.IH [OF this] True show ?thesis by (simp add: skipped_append logs_emit)
      next
        case False
        with Cons.prems show ?thesis
          unfolding download_loop_uncaught [OF True r [unfolded Inl] False] by simp
      qed
    next
      case (Inr res)
      from Cons.prems have "download_loop ext api out ps (d @ [local_path res])
         ((emit (Info_downloading (get m ''title'') (get m ''_uid'')) st)\<lparr>world := w\<rparr>)
           = Inr (d', st')"
        unfolding download_loop_got [OF True r [unfolded Inr]] .
      from Cons.IH [OF this] True show ?thesis by (simp add: skipped_append logs_emit)
    qed
  qed
qed

lemma download_loop_orig_eq':
  "download_loop_orig ext api out ps d st = download_loop ext api out ps d st"
  by (induction ps arbitrary: d st) (simp_all add: Let_def split: prod.splits sum.splits)

lemma download_loop_orig_eq: "download_loop_orig = download_loop"
  by (intro ext) (rule download_loop_orig_eq')

section \<open>Facts about the query loop\<close>

lemma map_of_setitem: "map_of (setitem m k v) k = Some v"
  by (simp add: setitem_def update_conv)

lemma get_setitem: "get (setitem m k v) k = v"
  by (simp add: get_def map_of_setitem)

lemma tag_products_eq:
  "tag_products products results =
     results @ map (\<lambda>(uid, meta). setitem meta ''_uid'' (PStr uid)) products"
  by (induction products results rule: tag_products.induct) simp_all

lemma tag_products_orig_eq': "tag_products_orig products results = tag_products products results"
  by (induction products results rule: tag_products.induct) simp_all

lemma tag_products_orig_eq: "tag_products_orig = tag_products"
  by (intro ext) (rule tag_products_orig_eq')

lemma query_loop_orig_eq':
  "query_loop_orig ext api wkt pf pt c dr rs st = query_loop ext api wkt pf pt c dr rs st"
  by (induction ext api wkt pf pt c dr rs st rule: query_loop.induct)
     (simp_all add: Let_def tag_products_orig_eq split: prod.splits sum.splits)

lemma query_loop_orig_eq: "query_loop_orig = query_loop"
  by (intro ext) (rule query_loop_orig_eq')

lemma ranges_loop_orig_eq2: "ranges_loop_orig = ranges_loop"
  by (intro ext) (rule ranges_loop_orig_eq)

lemma month_limited_date_ranges_orig_eq:
  "month_limited_date_ranges_orig = month_limited_date_ranges"
  by (intro ext) (simp add: month_limited_date_ranges_orig_def month_limited_date_ranges_def
        ranges_loop_orig_eq2)

lemma query_loop_tagged:
  "query_loop ext api wkt pf pt c dr rs st = Inr (rs', st') \<Longrightarrow> m \<in> set rs' \<Longrightarrow>
     m \<in> set rs \<or>
     (\<exists>win\<in>set dr. \<exists>w products w' uid m0.
        api_query ext api \<lparr>area = wkt, date_window = win, platformname = pf,
                           producttype = pt, cloudcoverpercentage = (0, c)\<rparr> w
          = (Inr products, w') \<and>
        (uid, m0) \<in> set products \<and> m = setitem m0 ''_uid'' (PStr uid))"
proof (induction ext api wkt pf pt c dr rs st rule: query_loop.induct)
  case (1 ext api wkt pf pt c rs st)
  then show ?case by simp
next
  case (2 ext api wkt pf pt c start_iso end_iso dr rs st)
  let ?args = "\<lparr>area = wkt, date_window = (start_iso, end_iso), platformname = pf,
                producttype = pt, cloudcoverpercentage = (0, c)\<rparr>"
  let ?st1 = "emit (Debug_querying start_iso end_iso) st"
  obtain r w where r: "api_query ext api ?args (world ?st1) = (r, w)"
    by (cases "api_query ext api ?args (world ?st1)")
  show ?case
  proof (cases r)
    case (Inl e)
    with "2.prems" r show ?thesis by (simp add: Let_def)
  next
    case (Inr products)
    with "2.prems"(1) r have run:
      "query_loop ext api wkt pf pt c dr (tag_products products rs) (?st1\<lparr>world := w\<rparr>)
         = Inr (rs', st')"
      by (simp add: Let_def)
    have "m \<in> set (tag_products products rs) \<or>
     (\<exists>win\<in>set dr. \<exists>w products w' uid m0.
        api_query ext api \<lparr>area = wkt, date_window = win, platformname = pf,
                           producttype = pt, cloudcoverpercentage = (0, c)\<rparr> w
          = (Inr products, w') \<and>
        (uid, m0) \<in> set products \<and> m = setitem m0 ''_uid'' (PStr uid))"
      using "2.IH" [OF refl r [symmetric] Inr run "2.prems"(2)] .
    then show ?thesis
    proof
      assume "m \<in> set (tag_products products rs)"
      then have "m \<in> set rs \<or> (\<exists>uid m0. (uid, m0) \<in> set products \<and> m = setitem m0 ''_uid'' (PStr uid))"
        by (auto simp: tag_products_eq)
      then show ?thesis using r Inr by fastforce
    next
      assume "\<exists>win\<in>set dr. \<exists>w products w' uid m0.
        api_query ext api \<lparr>area = wkt, date_window = win, platformname = pf,
                           producttype = pt, cloudcoverpercentage = (0, c)\<rparr> w
          = (Inr products, w') \<and>
        (uid, m0) \<in> set products \<and> m = setitem m0 ''_uid'' (PStr uid)"
      then show ?thesis by auto
    qed
  qed
qed

lemma query_loop_without_logs:
  "world st = world st' \<Longrightarrow>
     without_logs (query_loop ext api wkt pf pt c dr rs st)
       = without_logs (query_loop ext api wkt pf pt c dr rs st')"
proof (induction dr arbitrary: rs st st')
  case Nil
  then show ?case by (simp add: without_logs_def)
next
  case (Cons win dr)
  obtain a b where win: "win = (a, b)" by (cases win)
  let ?args = "\<lparr>area = wkt, date_window = (a, b), platformname = pf,
                producttype = pt, cloudcoverpercentage = (0, c)\<rparr>"
  obtain r w where r: "api_query ext api ?args (world st) = (r, w)"
    by (cases "api_query ext api ?args (world st)")
  then have r': "api_query ext api ?args (world st') = (r, w)" using Cons.prems by simp
  show ?case
  proof (cases r)
    case (Inl e)
    then show ?thesis using r r' by (simp add: win Let_def world_emit without_logs_def)
  next
    case (Inr products)
    have "without_logs (query_loop ext api wkt pf pt c dr (tag_products products rs)
             ((emit (Debug_querying a b) st)\<lparr>world := w\<rparr>))
        = without_logs (query_loop ext api wkt pf pt c dr (tag_products products rs)
             ((emit (Debug_querying a b) st')\<lparr>world := w\<rparr>))"
      by (rule Cons.IH) simp
    then show ?thesis using r r' Inr by (simp add: win Let_def world_emit)
  qed
qed

lemma result_ranker_mset: "result_ranker rs = Inr ranked \<Longrightarrow> mset ranked = mset rs"
  by (auto simp: result_ranker_char split: if_splits)

lemma result_ranker_set: "result_ranker rs = Inr ranked \<Longrightarrow> set ranked = set rs"
  by (metis result_ranker_mset set_mset_mset)

lemma query_orig_coincides:
  "without_logs (query_sentinel_products_orig ext creds wkt sy ey c pt pf st)
     = without_logs (query_sentinel_products ext creds wkt sy ey c pt pf (5, 8) st)"
proof (cases "month_limited_date_ranges sy ey (5, 8)")
  case (Inl e)
  then show ?thesis
    by (simp add: query_sentinel_products_orig_def query_sentinel_products_def
          month_limited_date_ranges_orig_eq without_logs_def)
next
  case (Inr dr)
  let ?api = "SentinelAPI (user creds) (password creds) (api_url creds)"
  let ?s1 = "emit (Info_querying_may_august sy ey) (emit (Info_connecting (api_url creds)) st)"
  let ?s2 = "emit (Info_querying_months 5 8 sy ey) (emit (Info_connecting (api_url creds)) st)"
  have eq: "without_logs (query_loop ext ?api wkt pf pt c dr [] ?s1)
      = without_logs (query_loop ext ?api wkt pf pt c dr [] ?s2)"
    by (rule query_loop_without_logs) (simp add: world_emit)
  show ?thesis
  proof (cases "query_loop ext ?api wkt pf pt c dr [] ?s1")
    case l1: (Inl e)
    with eq obtain e' where "query_loop ext ?api wkt pf pt c dr [] ?s2 = Inl e'" "e' = e"
      by (cases "query_loop ext ?api wkt pf pt c dr [] ?s2") (auto simp: without_logs_def)
    with l1 Inr show ?thesis
      by (simp add: query_sentinel_products_orig_def query_sentinel_products_def
          month_limited_date_ranges_orig_eq query_loop_orig_eq without_logs_def)
  next
    case r1: (Inr p1)
    obtain rs s1 where p1: "p1 = (rs, s1)" by (cases p1)
    with eq r1 obtain s2 where r2: "query_loop ext ?api wkt pf pt c dr [] ?s2 = Inr (rs, s2)"
      and w: "world s2 = world s1"
      by (cases "query_loop ext ?api wkt pf pt c dr [] ?s2") (auto simp: without_logs_def)
    show ?thesis using Inr r1 p1 r2 w
      by (simp add: query_sentinel_products_orig_def query_sentinel_products_def
          month_limited_date_ranges_orig_eq query_loop_orig_eq without_logs_def world_emit
          split: sum.splits)
  qed
qed

section \<open>The date-window builder: results\<close>

subsection \<open>C2: an end month shorter than 31 days\<close>

text \<open>
  An empty range of years builds no date at all, so the end month is never looked at:
  with \<open>start_year = 2021\<close>, \<open>end_year = 2019\<close> and the months \<open>(5, 6)\<close> the builder
  returns the empty list, although June has 30 days.
\<close>

theorem short_end_month_empty_range_counterexample:
  "days_in_month 2021 6 < 31 \<and> month_limited_date_ranges 2021 2019 (5, 6) = Inr []"
  by (simp add: days_in_month_def DAYS_IN_MONTH_def month_limited_date_ranges_def)

text \<open>
  Claim C2, for a range of years that is not empty: whenever \<open>start_year \<le> end_year\<close> and
  the end month is one of February, April, June, September and November, the builder
  returns no window: the call ends with the error raised for the first year. That error
  is \<open>ValueError\<close> when the start year and the start month fit a C integer, and
  \<open>OverflowError\<close> when one of them does not.
\<close>

theorem short_end_month_raises:
  "start_year \<le> end_year \<Longrightarrow> snd months \<in> {2, 4, 6, 9, 11} \<Longrightarrow>
     month_limited_date_ranges start_year end_year months =
       Inl (if in_c_int start_year \<and> in_c_int (fst months) then ValueError
            else OverflowError)"
proof -
  assume le: "start_year \<le> end_year" and m: "snd months \<in> {2, 4, 6, 9, 11}"
  from m have m2: "1 \<le> snd months" "snd months \<le> 12" by auto
  have short: "\<not> 31 \<le> days_in_month start_year (snd months)"
    using m by (auto simp: days_in_month_31 [OF m2])
  then have bad: "\<not> window_ok months start_year" by (simp add: window_ok_def)
  have c: "in_c_int (snd months)" using m2 by (simp add: in_c_int_def)
  from le have years: "[start_year..end_year] = start_year # [start_year + 1..end_year]"
    by (rule upto_rec1)
  show ?thesis
    unfolding month_limited_date_ranges_def years ranges_loop_step using bad c by simp
qed

text \<open>The years 2019 to 2021 with the months \<open>(5, 6)\<close>.\<close>

theorem short_end_month_raises_witness:
  "(2019::int) \<le> 2021 \<and> snd (5::int, 6::int) \<in> {2, 4, 6, 9, 11} \<and>
   month_limited_date_ranges 2019 2021 (5, 6) = Inl ValueError \<and>
   (2147483648::int) \<le> 2147483648 \<and>
   month_limited_date_ranges 2147483648 2147483648 (5, 6) = Inl OverflowError"
proof -
  have a: "(2019::int) \<le> 2021" by simp
  have b: "snd (5::int, 6::int) \<in> {2, 4, 6, 9, 11}" by simp
  have c: "(2147483648::int) \<le> 2147483648" by simp
  from short_end_month_raises [OF a b] short_end_month_raises [OF c b] a b
  show ?thesis by (simp add: in_c_int_def)
qed

subsection \<open>C3: one window per year\<close>

text \<open>
  \<open>datetime.date\<close> has no year 0: for \<open>start_year = end_year = 0\<close> and the months
  \<open>(5, 8)\<close> the builder raises \<open>ValueError\<close> instead of returning one window. And
  nothing orders the two months: for the year 2020 and the months \<open>(8, 5)\<close>, whose end
  month has 31 days, the window returned starts on 1 August and ends on 31 May, so its
  start is after its end.
\<close>

theorem year_out_of_range_counterexample:
  "(0::int) \<le> 0 \<and> month_limited_date_ranges 0 0 (5, 8) = Inl ValueError \<and>
   month_limited_date_ranges 2020 2020 (8, 5) = Inr [(''2020-08-01'', ''2020-05-31'')] \<and>
   \<not> (''2020-08-01'' :: string) \<le> ''2020-05-31''"
proof -
  have "month_limited_date_ranges 0 0 (5, 8) = Inl ValueError"
    by (simp add: month_limited_date_ranges_def date_new_def MINYEAR_def in_c_int_def)
  moreover have "month_limited_date_ranges 2020 2020 (8, 5)
      = Inr [(''2020-08-01'', ''2020-05-31'')]"
    by code_simp
  moreover have "\<not> (''2020-08-01'' :: string) \<le> ''2020-05-31''" by simp
  ultimately show ?thesis by simp
qed

text \<open>
  Claim C3, for the years that \<open>datetime.date\<close> represents: whenever
  \<open>1 \<le> start_year \<le> end_year \<le> 9999\<close> and the month pair is valid (the start month is
  one of the twelve months and the end month has 31 days), the builder returns exactly
  \<open>end_year - start_year + 1\<close> windows; the window at position \<open>i\<close> is the pair of ISO
  strings of two dates of the year \<open>start_year + i\<close>, so the years ascend and each
  window lies within its own year. The start of a window is not after its end, as dates
  and as the strings returned, exactly when the start month is not after the end month.
\<close>

theorem one_window_per_year:
  assumes "1 \<le> start_year" and "start_year \<le> end_year" and "end_year \<le> 9999"
    and "1 \<le> fst months" and "fst months \<le> 12"
    and "snd months \<in> {1, 3, 5, 7, 8, 10, 12}"
  shows "\<exists>ws. month_limited_date_ranges start_year end_year months = Inr ws \<and>
           int (length ws) = end_year - start_year + 1 \<and>
           (\<forall>i<length ws. \<exists>s e.
              date_new (start_year + int i) (fst months) 1 = Inr s \<and>
              date_new (start_year + int i) (snd months) 31 = Inr e \<and>
              ws ! i = (isoformat s, isoformat e) \<and>
              year s = start_year + int i \<and> year e = start_year + int i \<and>
              date_le s e = (fst months \<le> snd months) \<and>
              (fst (ws ! i) \<le> snd (ws ! i)) = (fst months \<le> snd months))"
proof -
  have m2: "1 \<le> snd months" "snd months \<le> 12" using assms(6) by auto
  have m1: "fst months \<le> 12" using assms(5) by simp
  have d31: "31 \<le> days_in_month y (snd months)" for y
    using assms(6) m2 by (simp only: days_in_month_31)
  have ok: "window_ok months y" if "start_year \<le> y" "y \<le> end_year" for y
    using that assms(1,3,4) m1 m2 d31 by (simp add: window_ok_def MINYEAR_def MAXYEAR_def)
  let ?ws = "map (window months) [start_year..end_year]"
  have run: "month_limited_date_ranges start_year end_year months = Inr ?ws"
    unfolding month_limited_date_ranges_Inr using ok by simp
  have len: "int (length ?ws) = end_year - start_year + 1" using assms(2) by simp
  have each: "\<exists>s e.
              date_new (start_year + int i) (fst months) 1 = Inr s \<and>
              date_new (start_year + int i) (snd months) 31 = Inr e \<and>
              ?ws ! i = (isoformat s, isoformat e) \<and>
              year s = start_year + int i \<and> year e = start_year + int i \<and>
              date_le s e = (fst months \<le> snd months) \<and>
              (fst (?ws ! i) \<le> snd (?ws ! i)) = (fst months \<le> snd months)"
    if i: "i < length ?ws" for i
  proof -
    let ?y = "start_year + int i"
    from i have i': "i < length [start_year..end_year]" by simp
    then have nth: "[start_year..end_year] ! i = ?y" by simp
    from i' have "?y \<le> end_year" by simp
    then have w: "window_ok months ?y" by (intro ok) simp_all
    then have s: "date_new ?y (fst months) 1 = Inr \<lparr>year = ?y, month = fst months, day = 1\<rparr>"
      by (simp add: date_new_first window_ok_def)
    from w have e: "date_new ?y (snd months) 31 = Inr \<lparr>year = ?y, month = snd months, day = 31\<rparr>"
      by (simp add: date_new_31 window_ok_def)
    have v: "?ws ! i = window months ?y" using i' nth by simp
    have le: "(fst (window months ?y) \<le> snd (window months ?y)) = (fst months \<le> snd months)"
      using window_start_le_end [of "fst months" "snd months" ?y] assms(4,5) m2 by simp
    show ?thesis
      using s e v le by (auto simp: window_def date_le_def)
  qed
  show ?thesis using run len each by blast
qed

text \<open>The years 2019 to 2021 with the months \<open>(5, 8)\<close>: three windows.\<close>

theorem one_window_per_year_witness:
  "month_limited_date_ranges 2019 2021 (5, 8)
     = Inr [(''2019-05-01'', ''2019-08-31''), (''2020-05-01'', ''2020-08-31''),
            (''2021-05-01'', ''2021-08-31'')] \<and>
   (\<exists>ws. month_limited_date_ranges 2019 2021 (5, 8) = Inr ws \<and> int (length ws) = 2021 - 2019 + 1)"
proof -
  have h: "(1::int) \<le> 2019" "(2019::int) \<le> 2021" "(2021::int) \<le> 9999"
    "(1::int) \<le> fst (5, 8::int)" "fst (5::int, 8::int) \<le> 12"
    "snd (5::int, 8::int) \<in> {1, 3, 5, 7, 8, 10, 12}"
    by simp_all
  from one_window_per_year [OF h] obtain ws where
    "month_limited_date_ranges 2019 2021 (5, 8) = Inr ws" "int (length ws) = 2021 - 2019 + 1"
    by blast
  moreover have "month_limited_date_ranges 2019 2021 (5, 8)
     = Inr [(''2019-05-01'', ''2019-08-31''), (''2020-05-01'', ''2020-08-31''),
            (''2021-05-01'', ''2021-08-31'')]"
    by code_simp
  ultimately show ?thesis by blast
qed

subsection \<open>C4: from the first day of the start month to the last day of the end month\<close>



section \<open>The result ranker: results\<close>

lemma example_keys:
  "sensing_key entry_a = PNone" "sensing_key entry_b = PStr ''2021-06-01''"
  "sensing_key entry_c = PStr ''2020-06-01''"
  by (simp_all add: sensing_key_def py_or_def get_def entry_a_def entry_b_def entry_c_def)

lemma rank_c_b: "result_ranker [entry_c, entry_b] = Inr [entry_b, entry_c]"
  by (simp add: result_ranker_def list_sort_def example_keys)

subsection \<open>C1: descending by timestamp, ties in their original order\<close>

text \<open>
  The entries \<open>[a, b, c]\<close>, where \<open>a\<close> has no timestamp, are not ranked to \<open>[b, c, a]\<close>:
  the sort compares the key \<open>None\<close> of \<open>a\<close> with a string and raises \<open>TypeError\<close>.
\<close>

theorem ranker_missing_timestamp_counterexample:
  "result_ranker [entry_a, entry_b, entry_c] = Inl TypeError \<and>
   result_ranker [entry_a, entry_b, entry_c] \<noteq> Inr [entry_b, entry_c, entry_a]"
  by (simp add: result_ranker_def list_sort_def example_keys)

text \<open>
  Claim C1, for entries that have a timestamp. The key of an entry is its
  \<open>beginposition\<close> or else its \<open>ingestiondate\<close>. When every entry has a key, the ranker
  returns a rearrangement of the entries in which the keys descend and in which the
  entries of any one key stand in their original order. A collection of at most one
  entry is returned as it is. A collection of two or more entries of which one has no
  key is not ranked: the sort raises \<open>TypeError\<close>.
\<close>

theorem ranker_descending_stable:
  "((\<forall>m\<in>set results. sensing_key m \<noteq> PNone) \<longrightarrow>
      (\<exists>ranked. result_ranker results = Inr ranked \<and> mset ranked = mset results \<and>
         sorted_wrt (\<lambda>a b. str_of (sensing_key b) \<le> str_of (sensing_key a)) ranked \<and>
         (\<forall>k. filter (\<lambda>m. sensing_key m = k) ranked
               = filter (\<lambda>m. sensing_key m = k) results))) \<and>
   (length results \<le> 1 \<longrightarrow> result_ranker results = Inr results) \<and>
   (2 \<le> length results \<and> (\<exists>m\<in>set results. sensing_key m = PNone) \<longrightarrow>
      result_ranker results = Inl TypeError)"
proof (intro conjI impI)
  assume keys: "\<forall>m\<in>set results. sensing_key m \<noteq> PNone"
  let ?f = "str_of \<circ> sensing_key"
  let ?ranked = "rev (sort_key ?f (rev results))"
  have run: "result_ranker results = Inr ?ranked" using keys by (rule result_ranker_strings)
  have perm: "mset ?ranked = mset results" by simp
  have "sorted_wrt (\<lambda>a b. ?f b \<le> ?f a) ?ranked" by (rule desc_sorted)
  then have desc: "sorted_wrt (\<lambda>a b. str_of (sensing_key b) \<le> str_of (sensing_key a)) ?ranked"
    by (simp add: comp_def)
  have stable: "filter (\<lambda>m. sensing_key m = k) ?ranked = filter (\<lambda>m. sensing_key m = k) results"
    for k
  proof (cases k)
    case PNone
    have "filter (\<lambda>m. sensing_key m = PNone) results = []" using keys by (simp add: filter_empty_conv)
    moreover have "filter (\<lambda>m. sensing_key m = PNone) ?ranked = []"
      using keys by (simp add: filter_empty_conv)
    ultimately show ?thesis using PNone by simp
  next
    case (PStr s)
    have eq: "(sensing_key m = PStr s) = (?f m = s)" if "m \<in> set results" for m
      using keys that by (cases "sensing_key m") auto
    have "filter (\<lambda>m. sensing_key m = PStr s) ?ranked = filter (\<lambda>m. ?f m = s) ?ranked"
      by (rule filter_cong) (simp_all add: eq)
    also have "\<dots> = filter (\<lambda>m. ?f m = s) results" by (rule desc_stable)
    also have "\<dots> = filter (\<lambda>m. sensing_key m = PStr s) results"
      by (rule filter_cong) (simp_all add: eq)
    finally show ?thesis using PStr by simp
  qed
  show "\<exists>ranked. result_ranker results = Inr ranked \<and> mset ranked = mset results \<and>
         sorted_wrt (\<lambda>a b. str_of (sensing_key b) \<le> str_of (sensing_key a)) ranked \<and>
         (\<forall>k. filter (\<lambda>m. sensing_key m = k) ranked
               = filter (\<lambda>m. sensing_key m = k) results)"
    using run perm desc stable by blast
next
  assume "length results \<le> 1"
  then show "result_ranker results = Inr results" by (simp add: result_ranker_char)
next
  assume "2 \<le> length results \<and> (\<exists>m\<in>set results. sensing_key m = PNone)"
  then show "result_ranker results = Inl TypeError" by (auto simp: result_ranker_char)
qed

text \<open>
  \<open>[c, b]\<close> ranks to \<open>[b, c]\<close>, \<open>[a]\<close> is returned as it is, and \<open>[a, b, c]\<close> raises.
\<close>

theorem ranker_descending_stable_witness:
  "sensing_key entry_c \<noteq> PNone \<and> sensing_key entry_b \<noteq> PNone \<and>
   result_ranker [entry_c, entry_b] = Inr [entry_b, entry_c] \<and>
   (\<exists>ranked. result_ranker [entry_c, entry_b] = Inr ranked \<and>
      mset ranked = mset [entry_c, entry_b] \<and>
      sorted_wrt (\<lambda>a b. str_of (sensing_key b) \<le> str_of (sensing_key a)) ranked) \<and>
   length [entry_a] \<le> 1 \<and> result_ranker [entry_a] = Inr [entry_a] \<and>
   2 \<le> length [entry_a, entry_b, entry_c] \<and> sensing_key entry_a = PNone \<and>
   result_ranker [entry_a, entry_b, entry_c] = Inl TypeError"
proof -
  have k: "\<forall>m\<in>set [entry_c, entry_b]. sensing_key m \<noteq> PNone" by (simp add: example_keys)
  have one: "length [entry_a] \<le> 1" by simp
  have two: "2 \<le> length [entry_a, entry_b, entry_c] \<and>
    (\<exists>m\<in>set [entry_a, entry_b, entry_c]. sensing_key m = PNone)" by (simp add: example_keys)
  from ranker_descending_stable [of "[entry_c, entry_b]"] k
  have a: "\<exists>ranked. result_ranker [entry_c, entry_b] = Inr ranked \<and>
      mset ranked = mset [entry_c, entry_b] \<and>
      sorted_wrt (\<lambda>a b. str_of (sensing_key b) \<le> str_of (sensing_key a)) ranked" by blast
  from ranker_descending_stable [of "[entry_a]"] one
  have b: "result_ranker [entry_a] = Inr [entry_a]" by blast
  from ranker_descending_stable [of "[entry_a, entry_b, entry_c]"] two
  have c: "result_ranker [entry_a, entry_b, entry_c] = Inl TypeError" by blast
  show ?thesis using a b c rank_c_b by (simp add: example_keys)
qed

subsection \<open>C7: ranking twice\<close>

text \<open>
  Claim C7: the ranker is idempotent. Whenever it returns a ranked sequence, ranking
  that sequence again returns the same sequence.
\<close>

theorem ranker_idempotent:
  "result_ranker results = Inr ranked \<Longrightarrow> result_ranker ranked = Inr ranked"
proof (cases "length results \<le> 1")
  case True
  assume "result_ranker results = Inr ranked"
  with True show ?thesis by (simp add: result_ranker_char)
next
  case False
  assume r: "result_ranker results = Inr ranked"
  let ?f = "str_of \<circ> sensing_key"
  from r False have keys: "\<forall>m\<in>set results. sensing_key m \<noteq> PNone"
    and ranked: "ranked = rev (sort_key ?f (rev results))"
    by (auto simp: result_ranker_char split: if_splits)
  from ranked have "set ranked = set results" by simp
  with keys have "\<forall>m\<in>set ranked. sensing_key m \<noteq> PNone" by simp
  then have "result_ranker ranked = Inr (rev (sort_key ?f (rev ranked)))"
    by (rule result_ranker_strings)
  also have "rev (sort_key ?f (rev ranked)) = ranked" unfolding ranked by (rule desc_idem)
  finally show ?thesis .
qed

text \<open>\<open>[c, b]\<close> ranks to \<open>[b, c]\<close>, which ranks to itself.\<close>

theorem ranker_idempotent_witness:
  "result_ranker [entry_c, entry_b] = Inr [entry_b, entry_c] \<and>
   result_ranker [entry_b, entry_c] = Inr [entry_b, entry_c]"
proof -
  have r: "result_ranker [entry_c, entry_b] = Inr [entry_b, entry_c]" by (rule rank_c_b)
  from ranker_idempotent [OF r] r show ?thesis by simp
qed

section \<open>The catalog query: results\<close>

lemma query_results_tagged:
  assumes "query_sentinel_products ext creds wkt sy ey c pt pf months st = Inr (results, st')"
    and "m \<in> set results"
  shows "\<exists>win w products w' uid m0.
           api_query ext (SentinelAPI (user creds) (password creds) (api_url creds))
             \<lparr>area = wkt, date_window = win, platformname = pf, producttype = pt,
              cloudcoverpercentage = (0, c)\<rparr> w = (Inr products, w') \<and>
           (uid, m0) \<in> set products \<and> m = setitem m0 ''_uid'' (PStr uid)"
proof -
  let ?api = "SentinelAPI (user creds) (password creds) (api_url creds)"
  from assms(1) obtain dr rs st3 where
    loop: "query_loop ext ?api wkt pf pt c dr [] (emit (Info_querying_months (fst months) (snd months) sy ey)
             (emit (Info_connecting (api_url creds)) st)) = Inr (rs, st3)"
    and rank: "result_ranker rs = Inr results"
    by (auto simp: query_sentinel_products_def Let_def split: sum.splits prod.splits)
  from rank assms(2) have "m \<in> set rs" by (simp add: result_ranker_set)
  from query_loop_tagged [OF loop this] have "\<exists>win\<in>set dr. \<exists>w products w' uid m0.
        api_query ext ?api \<lparr>area = wkt, date_window = win, platformname = pf,
                           producttype = pt, cloudcoverpercentage = (0, c)\<rparr> w
          = (Inr products, w') \<and>
        (uid, m0) \<in> set products \<and> m = setitem m0 ''_uid'' (PStr uid)"
    by simp
  then show ?thesis by (elim bexE exE) (intro exI, assumption)
qed

lemma query_orig_results_tagged:
  assumes "query_sentinel_products_orig ext creds wkt sy ey c pt pf st = Inr (results, st')"
    and "m \<in> set results"
  shows "\<exists>win w products w' uid m0.
           api_query ext (SentinelAPI (user creds) (password creds) (api_url creds))
             \<lparr>area = wkt, date_window = win, platformname = pf, producttype = pt,
              cloudcoverpercentage = (0, c)\<rparr> w = (Inr products, w') \<and>
           (uid, m0) \<in> set products \<and> m = setitem m0 ''_uid'' (PStr uid)"
proof -
  let ?api = "SentinelAPI (user creds) (password creds) (api_url creds)"
  from assms(1) obtain dr rs st3 where
    loop: "query_loop ext ?api wkt pf pt c dr [] (emit (Info_querying_may_august sy ey)
             (emit (Info_connecting (api_url creds)) st)) = Inr (rs, st3)"
    and rank: "result_ranker rs = Inr results"
    by (auto simp: query_sentinel_products_orig_def query_loop_orig_eq Let_def
          split: sum.splits prod.splits)
  from rank assms(2) have "m \<in> set rs" by (simp add: result_ranker_set)
  from query_loop_tagged [OF loop this] have "\<exists>win\<in>set dr. \<exists>w products w' uid m0.
        api_query ext ?api \<lparr>area = wkt, date_window = win, platformname = pf,
                           producttype = pt, cloudcoverpercentage = (0, c)\<rparr> w
          = (Inr products, w') \<and>
        (uid, m0) \<in> set products \<and> m = setitem m0 ''_uid'' (PStr uid)"
    by simp
  then show ?thesis by (elim bexE exE) (intro exI, assumption)
qed

lemma ranges_2020:
  "month_limited_date_ranges 2020 2020 (5, 8) = Inr [(''2020-05-01'', ''2020-08-31'')]"
  by code_simp

lemma example_query:
  "query_sentinel_products example_service example_creds ''POLYGON EMPTY'' 2020 2020
     DEFAULT_CLOUD_MAX SENTINEL2_PRODUCTTYPE ''Sentinel-2'' (5, 8) example_state =
   Inr ([[(''beginposition'', PStr ''2020-05-01''), (''_uid'', PStr ''u1'')]],
        \<lparr>world = 1, logs = [Info_connecting ''https://example.org/'',
                            Info_querying_months 5 8 2020 2020,
                            Debug_querying ''2020-05-01'' ''2020-08-31'', Info_found 1]\<rparr>)"
  by (simp add: query_sentinel_products_def ranges_2020 example_service_def example_creds_def
        example_state_def emit_def result_ranker_char setitem_def)

subsection \<open>C8: every returned record carries its identifier\<close>

text \<open>
  Claim C8: every record of the list that \<open>query_sentinel_products\<close> returns, in either
  copy, has the key \<open>_uid\<close>, and its value is the identifier under which one of the
  queries of this call's service returned the record: the record is that response's
  record with the identifier stored under \<open>_uid\<close>. So the identifier field is present in
  every entry that goes on to the download step.
\<close>

theorem queried_records_carry_uid:
  assumes "query_sentinel_products ext creds wkt start_year end_year cloud_max product_type
             platform months st = Inr (results, st') \<or>
           query_sentinel_products_orig ext creds wkt start_year end_year cloud_max product_type
             platform st = Inr (results, st')"
    and "m \<in> set results"
  shows "\<exists>uid. map_of m ''_uid'' = Some (PStr uid) \<and> get m ''_uid'' = PStr uid \<and>
           (\<exists>win w products w' m0.
              api_query ext (SentinelAPI (user creds) (password creds) (api_url creds))
                \<lparr>area = wkt, date_window = win, platformname = platform,
                 producttype = product_type, cloudcoverpercentage = (0, cloud_max)\<rparr> w
                = (Inr products, w') \<and>
              (uid, m0) \<in> set products \<and> m = setitem m0 ''_uid'' (PStr uid))"
proof -
  have "\<exists>win w products w' uid m0.
           api_query ext (SentinelAPI (user creds) (password creds) (api_url creds))
             \<lparr>area = wkt, date_window = win, platformname = platform,
              producttype = product_type, cloudcoverpercentage = (0, cloud_max)\<rparr> w
             = (Inr products, w') \<and>
           (uid, m0) \<in> set products \<and> m = setitem m0 ''_uid'' (PStr uid)"
    using assms(1)
  proof
    assume "query_sentinel_products ext creds wkt start_year end_year cloud_max product_type
             platform months st = Inr (results, st')"
    from query_results_tagged [OF this assms(2)] show ?thesis .
  next
    assume "query_sentinel_products_orig ext creds wkt start_year end_year cloud_max product_type
             platform st = Inr (results, st')"
    from query_orig_results_tagged [OF this assms(2)] show ?thesis .
  qed
  then obtain win w products w' uid m0 where
    q: "api_query ext (SentinelAPI (user creds) (password creds) (api_url creds))
             \<lparr>area = wkt, date_window = win, platformname = platform,
              producttype = product_type, cloudcoverpercentage = (0, cloud_max)\<rparr> w
             = (Inr products, w')"
    and mem: "(uid, m0) \<in> set products" and m: "m = setitem m0 ''_uid'' (PStr uid)"
    by blast
  from m have "map_of m ''_uid'' = Some (PStr uid)" "get m ''_uid'' = PStr uid"
    by (simp_all add: map_of_setitem get_setitem)
  with q mem m show ?thesis by blast
qed

text \<open>The query for the year 2020 against the example service.\<close>

theorem queried_records_carry_uid_witness:
  "query_sentinel_products example_service example_creds ''POLYGON EMPTY'' 2020 2020
     DEFAULT_CLOUD_MAX SENTINEL2_PRODUCTTYPE ''Sentinel-2'' (5, 8) example_state =
   Inr ([[(''beginposition'', PStr ''2020-05-01''), (''_uid'', PStr ''u1'')]],
        \<lparr>world = 1, logs = [Info_connecting ''https://example.org/'',
                            Info_querying_months 5 8 2020 2020,
                            Debug_querying ''2020-05-01'' ''2020-08-31'', Info_found 1]\<rparr>) \<and>
   (\<exists>uid. map_of [(''beginposition'', PStr ''2020-05-01''), (''_uid'', PStr ''u1'')] ''_uid''
            = Some (PStr uid)) \<and>
   get [(''beginposition'', PStr ''2020-05-01''), (''_uid'', PStr ''u1'')] ''_uid'' = PStr ''u1''"
proof -
  note run = example_query
  have mem: "[(''beginposition'', PStr ''2020-05-01''), (''_uid'', PStr ''u1'')]
     \<in> set [[(''beginposition'', PStr ''2020-05-01''), (''_uid'', PStr ''u1'')]]" by simp
  from queried_records_carry_uid [OF disjI1 [OF run] mem]
  have "\<exists>uid. map_of [(''beginposition'', PStr ''2020-05-01''), (''_uid'', PStr ''u1'')] ''_uid''
            = Some (PStr uid)" by blast
  then show ?thesis using run by (simp add: get_def)
qed

subsection \<open>C9: an empty range of years\<close>

text \<open>
  Claim C9: whenever \<open>start_year > end_year\<close> the builder returns the empty list and
  raises nothing, and \<open>query_sentinel_products\<close>, in either copy, returns the empty
  list. It leaves the world as it was and logs no query, whatever the service would
  have answered: no external query is made.
\<close>

theorem empty_year_range_no_query:
  "end_year < start_year \<Longrightarrow>
     month_limited_date_ranges start_year end_year months = Inr [] \<and>
     query_sentinel_products ext creds wkt start_year end_year cloud_max product_type platform
       months st =
       Inr ([], st\<lparr>logs := logs st @ [Info_connecting (api_url creds),
                     Info_querying_months (fst months) (snd months) start_year end_year,
                     Info_found 0]\<rparr>) \<and>
     query_sentinel_products_orig ext creds wkt start_year end_year cloud_max product_type
       platform st =
       Inr ([], st\<lparr>logs := logs st @ [Info_connecting (api_url creds),
                     Info_querying_may_august start_year end_year, Info_found 0]\<rparr>)"
proof -
  assume "end_year < start_year"
  then have years: "[start_year..end_year] = []" by simp
  have builder: "month_limited_date_ranges start_year end_year months = Inr []"
    unfolding month_limited_date_ranges_def years by simp
  have builder_orig: "month_limited_date_ranges_orig start_year end_year (5, 8) = Inr []"
    unfolding month_limited_date_ranges_orig_def years by simp
  have ranked: "result_ranker [] = Inr []"
    by (simp add: result_ranker_def list_sort_def)
  have scripts: "query_sentinel_products ext creds wkt start_year end_year cloud_max
       product_type platform months st =
       Inr ([], st\<lparr>logs := logs st @ [Info_connecting (api_url creds),
                     Info_querying_months (fst months) (snd months) start_year end_year,
                     Info_found 0]\<rparr>)"
    by (simp add: query_sentinel_products_def builder ranked emit_def)
  have orig: "query_sentinel_products_orig ext creds wkt start_year end_year cloud_max
       product_type platform st =
       Inr ([], st\<lparr>logs := logs st @ [Info_connecting (api_url creds),
                     Info_querying_may_august start_year end_year, Info_found 0]\<rparr>)"
    by (simp add: query_sentinel_products_orig_def builder_orig ranked emit_def)
  from builder scripts orig show ?thesis by simp
qed

text \<open>
  From 2021 down to 2019 against the example service, whose call counter stays at 0.
\<close>

theorem empty_year_range_no_query_witness:
  "(2019::int) < 2021 \<and>
   month_limited_date_ranges 2021 2019 (5, 6) = Inr [] \<and>
   query_sentinel_products example_service example_creds ''POLYGON EMPTY'' 2021 2019
     DEFAULT_CLOUD_MAX SENTINEL2_PRODUCTTYPE ''Sentinel-2'' (5, 6) example_state =
     Inr ([], \<lparr>world = 0, logs = [Info_connecting ''https://example.org/'',
                                  Info_querying_months 5 6 2021 2019, Info_found 0]\<rparr>)"
proof -
  have h: "(2019::int) < 2021" by simp
  from empty_year_range_no_query [OF h, of "(5, 6)" example_service example_creds
      "''POLYGON EMPTY''" DEFAULT_CLOUD_MAX SENTINEL2_PRODUCTTYPE "''Sentinel-2''" example_state]
  show ?thesis using h by (simp add: example_state_def example_creds_def)
qed

subsection \<open>C10: the two copies\<close>

text \<open>
  Claim C10: \<open>_month_limited_date_ranges\<close> returns the same in both files for every
  input, and so does \<open>download_products\<close>, log and world included. The original copy's
  \<open>query_sentinel_products\<close> returns or raises the same, and leaves the same world, as
  the scripts copy's called with \<open>months = (5, 8)\<close>; the logs of the two differ in the
  wording of one message only (\<open>May-August\<close> against \<open>months 5-8\<close>).
\<close>

theorem copies_agree:
  "month_limited_date_ranges_orig start_year end_year months
     = month_limited_date_ranges start_year end_year months \<and>
   download_products_orig ext creds products out_dir api_arg st
     = download_products ext creds products out_dir api_arg st \<and>
   without_logs (query_sentinel_products_orig ext creds wkt_area start_year end_year cloud_max
                   product_type platform st)
     = without_logs (query_sentinel_products ext creds wkt_area start_year end_year cloud_max
                       product_type platform (5, 8) st)"
proof (intro conjI)
  show "month_limited_date_ranges_orig start_year end_year months
     = month_limited_date_ranges start_year end_year months"
    unfolding month_limited_date_ranges_orig_def month_limited_date_ranges_def
    by (rule ranges_loop_orig_eq)
next
  show "download_products_orig ext creds products out_dir api_arg st
     = download_products ext creds products out_dir api_arg st"
    unfolding download_products_orig_def download_products_def download_loop_orig_eq ..
next
  show "without_logs (query_sentinel_products_orig ext creds wkt_area start_year end_year
                        cloud_max product_type platform st)
     = without_logs (query_sentinel_products ext creds wkt_area start_year end_year cloud_max
                       product_type platform (5, 8) st)"
    by (rule query_orig_coincides)
qed

text \<open>Both copies on the year 2020 and on a batch of one entry.\<close>

theorem copies_agree_witness:
  "month_limited_date_ranges_orig 2020 2020 (5, 8) = Inr [(''2020-05-01'', ''2020-08-31'')] \<and>
   download_products_orig example_service example_creds [entry_anonymous] ''out'' None example_state
     = download_products example_service example_creds [entry_anonymous] ''out'' None example_state \<and>
   without_logs (query_sentinel_products_orig example_service example_creds ''POLYGON EMPTY''
                   2020 2020 DEFAULT_CLOUD_MAX SENTINEL2_PRODUCTTYPE ''Sentinel-2'' example_state)
     = Inr ([[(''beginposition'', PStr ''2020-05-01''), (''_uid'', PStr ''u1'')]], 1)"
proof -
  note t = copies_agree [of 2020 2020 "(5, 8)" example_service example_creds "[entry_anonymous]"
      "''out''" None example_state "''POLYGON EMPTY''" DEFAULT_CLOUD_MAX SENTINEL2_PRODUCTTYPE "''Sentinel-2''"]
  show ?thesis using t by (simp add: ranges_2020 example_query without_logs_def)
qed

section \<open>The download orchestrator: results\<close>

lemma download_loop_without_logs:
  "world st = world st' \<Longrightarrow>
     without_logs (download_loop ext api out ps d st)
       = without_logs (download_loop ext api out (filter (\<lambda>m. truthy (get m ''_uid'')) ps) d st')"
proof (induction ps arbitrary: d st st')
  case Nil
  then show ?case by (simp add: without_logs_def)
next
  case (Cons m ps)
  show ?case
  proof (cases "truthy (get m ''_uid'')")
    case False
    have "without_logs (download_loop ext api out ps d (emit (Warning_missing_uid m) st))
        = without_logs (download_loop ext api out (filter (\<lambda>m. truthy (get m ''_uid'')) ps) d st')"
      by (rule Cons.IH) (simp add: world_emit Cons.prems)
    then show ?thesis using False by simp
  next
    case True
    obtain r w where r: "api_download ext api (get m ''_uid'') out (world st) = (r, w)"
      by (cases "api_download ext api (get m ''_uid'') out (world st)")
    then have r': "api_download ext api (get m ''_uid'') out (world st') = (r, w)"
      using Cons.prems by simp
    show ?thesis
    proof (cases r)
      case (Inl e)
      show ?thesis
      proof (cases "is_Exception e")
        case exc: True
        have "without_logs (download_loop ext api out ps d
                (emit (Exception_failed (get m ''_uid'') e)
                  ((emit (Info_downloading (get m ''title'') (get m ''_uid'')) st)\<lparr>world := w\<rparr>)))
            = without_logs (download_loop ext api out (filter (\<lambda>m. truthy (get m ''_uid'')) ps) d
                (emit (Exception_failed (get m ''_uid'') e)
                  ((emit (Info_downloading (get m ''title'') (get m ''_uid'')) st')\<lparr>world := w\<rparr>)))"
          by (rule Cons.IH) (simp add: world_emit)
        then show ?thesis
          using True
          by (simp only: filter.simps if_True
                download_loop_caught [OF True r [unfolded Inl] exc]
                download_loop_caught [OF True r' [unfolded Inl] exc])
      next
        case False
        show ?thesis
          using True
          by (simp only: filter.simps if_True
                download_loop_uncaught [OF True r [unfolded Inl] False]
                download_loop_uncaught [OF True r' [unfolded Inl] False])
      qed
    next
      case (Inr res)
      have "without_logs (download_loop ext api out ps (d @ [local_path res])
                ((emit (Info_downloading (get m ''title'') (get m ''_uid'')) st)\<lparr>world := w\<rparr>))
            = without_logs (download_loop ext api out (filter (\<lambda>m. truthy (get m ''_uid'')) ps)
                (d @ [local_path res])
                ((emit (Info_downloading (get m ''title'') (get m ''_uid'')) st')\<lparr>world := w\<rparr>))"
        by (rule Cons.IH) (simp add: world_emit)
      then show ?thesis
        using True
        by (simp only: filter.simps if_True
              download_loop_got [OF True r [unfolded Inr]]
              download_loop_got [OF True r' [unfolded Inr]])
    qed
  qed
qed

lemma download_products_without_logs:
  "without_logs (download_products ext creds products out api_arg st)
     = without_logs (download_products ext creds
         (filter (\<lambda>m. truthy (get m ''_uid'')) products) out api_arg st)"
proof (cases "ensure_dir ext out (world st)")
  case (Inl e)
  then show ?thesis by (simp add: download_products_def)
next
  case (Inr w)
  let ?api = "api_or_default creds api_arg"
  let ?f = "filter (\<lambda>m. truthy (get m ''_uid'')) products"
  have eq: "without_logs (download_loop ext ?api out products [] (st\<lparr>world := w\<rparr>))
      = without_logs (download_loop ext ?api out ?f [] (st\<lparr>world := w\<rparr>))"
    by (rule download_loop_without_logs) simp
  show ?thesis
  proof (cases "download_loop ext ?api out products [] (st\<lparr>world := w\<rparr>)")
    case l: (Inl e)
    with eq have "download_loop ext ?api out ?f [] (st\<lparr>world := w\<rparr>) = Inl e"
      by (cases "download_loop ext ?api out ?f [] (st\<lparr>world := w\<rparr>)")
         (auto simp: without_logs_def)
    with l Inr show ?thesis by (simp add: download_products_def)
  next
    case r: (Inr p)
    obtain d s1 where p: "p = (d, s1)" by (cases p)
    with eq r obtain s2 where r2: "download_loop ext ?api out ?f [] (st\<lparr>world := w\<rparr>) = Inr (d, s2)"
      and w: "world s2 = world s1"
      by (cases "download_loop ext ?api out ?f [] (st\<lparr>world := w\<rparr>)")
         (auto simp: without_logs_def)
    show ?thesis using Inr r p r2 w
      by (simp add: download_products_def without_logs_def world_emit)
  qed
qed

lemma download_products_counts:
  assumes "download_products ext creds products out api_arg st = Inr (paths, st')"
  shows "length paths \<le> length (filter (\<lambda>m. truthy (get m ''_uid'')) products) \<and>
         skipped (logs st') = skipped (logs st) @ filter (\<lambda>m. \<not> truthy (get m ''_uid'')) products"
proof -
  from assms obtain w s1 where dir: "ensure_dir ext out (world st) = Inr w"
    and loop: "download_loop ext (api_or_default creds api_arg) out products [] (st\<lparr>world := w\<rparr>)
                 = Inr (paths, s1)"
    and st': "st' = emit (Info_downloaded (length paths)) s1"
    by (auto simp: download_products_def Let_def split: sum.splits prod.splits)
  from download_loop_counts [OF loop] st' show ?thesis
    by (simp add: logs_emit skipped_append)
qed

lemma example_dir: "ensure_dir example_service ''out'' w = Inr w"
  by (simp add: ensure_dir_def example_service_def)

lemma example_download:
  "api_download example_service api (PStr ''bad'') ''out'' w
     = (Inl (OtherException ''timeout''), Suc w)"
  "api_download example_service api (PStr ''b'') ''out'' w
     = (Inr (ResDict [(''path'', PStr ''out/b'')]), Suc w)"
  "api_download example_service api (PStr ''c'') ''out'' w
     = (Inr (ResDict [(''path'', PStr ''out/c'')]), Suc w)"
  by (simp_all add: example_service_def)

lemma local_path_dict: "get [(''path'', v)] ''path'' = v"
  by (simp add: get_def)

lemma example_uids:
  "get entry_anonymous ''_uid'' = PNone" "get entry_b ''_uid'' = PStr ''b''"
  "get entry_c ''_uid'' = PStr ''c''" "get entry_bad ''_uid'' = PStr ''bad''"
  "get entry_anonymous ''title'' = PStr ''untitled''" "get entry_b ''title'' = PNone"
  "get entry_c ''title'' = PNone" "get entry_bad ''title'' = PStr ''unreachable''"
  by (simp_all add: get_def entry_anonymous_def entry_b_def entry_c_def entry_bad_def)

lemma successful_paths_append:
  "successful_paths (xs @ ys) = successful_paths xs @ successful_paths ys"
  by (induction xs rule: successful_paths.induct) simp_all

lemma failures_append: "failures (xs @ ys) = failures xs @ failures ys"
  by (induction xs rule: failures.induct) simp_all

lemma caught_append: "caught (xs @ ys) = caught xs @ caught ys"
  by (induction xs rule: caught.induct) simp_all

lemma download_calls_append:
  "download_calls ext api out (ms @ ns) w =
     (case download_calls ext api out ms w of
        (a, w1) \<Rightarrow> (case download_calls ext api out ns w1 of (b, w2) \<Rightarrow> (a @ b, w2)))"
  by (induction ms arbitrary: w) (simp_all split: prod.splits)

lemma download_calls_entries:
  "download_calls ext api out ms w = (answers, w_end) \<Longrightarrow>
     map fst answers = filter (\<lambda>m. truthy (get m ''_uid'')) ms"
  by (induction ms arbitrary: w answers) (auto split: prod.splits if_splits)

lemma download_loop_calls:
  assumes "download_calls ext api out ms (world st) = (answers, w_end)"
    and "\<forall>m e. (m, Inl e) \<in> set answers \<longrightarrow> is_Exception e"
  shows "\<exists>st'. download_loop ext api out ms d st = Inr (d @ successful_paths answers, st') \<and>
           world st' = w_end \<and> caught (logs st') = caught (logs st) @ failures answers"
  using assms
proof (induction ms arbitrary: d st answers)
  case Nil
  then show ?case by auto
next
  case (Cons m ms)
  show ?case
  proof (cases "truthy (get m ''_uid'')")
    case False
    let ?st = "emit (Warning_missing_uid m) st"
    from Cons.prems(1) False
    have "download_calls ext api out ms (world ?st) = (answers, w_end)"
      by (simp add: world_emit)
    from Cons.IH [OF this Cons.prems(2), of d] obtain st' where
      "download_loop ext api out ms d ?st = Inr (d @ successful_paths answers, st')"
      "world st' = w_end" "caught (logs st') = caught (logs ?st) @ failures answers"
      by blast
    then show ?thesis using False by (auto simp: logs_emit caught_append)
  next
    case True
    obtain r w1 where r: "api_download ext api (get m ''_uid'') out (world st) = (r, w1)"
      by (cases "api_download ext api (get m ''_uid'') out (world st)")
    obtain rs w2 where rs: "download_calls ext api out ms w1 = (rs, w2)"
      by (cases "download_calls ext api out ms w1")
    from Cons.prems(1) True r rs have ans: "answers = (m, r) # rs" and w2: "w2 = w_end"
      by simp_all
    from Cons.prems(2) ans have rest: "\<forall>m e. (m, Inl e) \<in> set rs \<longrightarrow> is_Exception e"
      by auto
    show ?thesis
    proof (cases r)
      case (Inl e)
      with Cons.prems(2) ans have exc: "is_Exception e" by auto
      let ?st = "emit (Exception_failed (get m ''_uid'') e)
          ((emit (Info_downloading (get m ''title'') (get m ''_uid'')) st)\<lparr>world := w1\<rparr>)"
      have "download_calls ext api out ms (world ?st) = (rs, w_end)"
        using rs w2 by (simp add: world_emit)
      from Cons.IH [OF this rest, of d] obtain st' where
        "download_loop ext api out ms d ?st = Inr (d @ successful_paths rs, st')"
        "world st' = w_end" "caught (logs st') = caught (logs ?st) @ failures rs"
        by blast
      then show ?thesis
        unfolding download_loop_caught [OF True r [unfolded Inl] exc] ans Inl
        by (auto simp: logs_emit caught_append)
    next
      case (Inr res)
      let ?st = "(emit (Info_downloading (get m ''title'') (get m ''_uid'')) st)\<lparr>world := w1\<rparr>"
      have "download_calls ext api out ms (world ?st) = (rs, w_end)"
        using rs w2 by simp
      from Cons.IH [OF this rest, of "d @ [local_path res]"] obtain st' where
        "download_loop ext api out ms (d @ [local_path res]) ?st
           = Inr ((d @ [local_path res]) @ successful_paths rs, st')"
        "world st' = w_end" "caught (logs st') = caught (logs ?st) @ failures rs"
        by blast
      then show ?thesis
        unfolding download_loop_got [OF True r [unfolded Inr]] ans Inr
        by (auto simp: logs_emit caught_append)
    qed
  qed
qed

subsection \<open>C5: a download that raises\<close>

text \<open>
  Claim C5. Let the destination directory be there, and let the batch be the entries
  \<open>before\<close>, then \<open>x\<close>, then \<open>after\<close>. Let \<open>answers_before\<close> be what the service answers
  to the download calls for the entries before \<open>x\<close>, let the call for \<open>x\<close>, made in the
  world these calls leave, raise an \<open>Exception\<close>, and let \<open>answers_after\<close> be what the
  service answers to the calls for the entries after \<open>x\<close>, made from the world the
  failed call leaves; any of these other calls may fail with an \<open>Exception\<close> too. Then
  \<open>download_products\<close> does not abort: it returns the local paths of the calls that
  returned before \<open>x\<close>, followed by those of the calls that returned after \<open>x\<close>, in
  order and with nothing for \<open>x\<close>. It leaves the world of the last call, it has logged
  the failure of \<open>x\<close> between the failures before and after it, and a call was made for
  every entry with an identifier, those after \<open>x\<close> included.
\<close>

theorem failed_download_skipped:
  assumes "ensure_dir ext out_dir (world st) = Inr w0"
    and "api = api_or_default creds api_arg"
    and "download_calls ext api out_dir before w0 = (answers_before, w_before)"
    and "truthy (get x ''_uid'')"
    and "api_download ext api (get x ''_uid'') out_dir w_before = (Inl e, w_x)"
    and "is_Exception e"
    and "download_calls ext api out_dir after w_x = (answers_after, w_end)"
    and "\<forall>m e'. (m, Inl e') \<in> set (answers_before @ answers_after) \<longrightarrow> is_Exception e'"
  shows "\<exists>st'. download_products ext creds (before @ x # after) out_dir api_arg st =
             Inr (successful_paths answers_before @ successful_paths answers_after, st') \<and>
           world st' = w_end \<and>
           caught (logs st') =
             caught (logs st) @ failures answers_before @ (get x ''_uid'', e)
               # failures answers_after \<and>
           map fst answers_before = filter (\<lambda>m. truthy (get m ''_uid'')) before \<and>
           map fst answers_after = filter (\<lambda>m. truthy (get m ''_uid'')) after"
proof -
  let ?answers = "answers_before @ (x, Inl e) # answers_after"
  have calls: "download_calls ext api out_dir (before @ x # after) (world (st\<lparr>world := w0\<rparr>))
      = (?answers, w_end)"
    using assms(3,4,5,7) by (simp add: download_calls_append)
  have exc: "\<forall>m e'. (m, Inl e') \<in> set ?answers \<longrightarrow> is_Exception e'"
    using assms(6,8) by auto
  from download_loop_calls [OF calls exc, of "[]"] obtain st1 where
    loop: "download_loop ext api out_dir (before @ x # after) [] (st\<lparr>world := w0\<rparr>)
             = Inr (successful_paths ?answers, st1)"
    and w: "world st1 = w_end"
    and c: "caught (logs st1) = caught (logs st) @ failures ?answers"
    by auto
  let ?paths = "successful_paths answers_before @ successful_paths answers_after"
  have paths: "successful_paths ?answers = ?paths" by (simp add: successful_paths_append)
  have run: "download_products ext creds (before @ x # after) out_dir api_arg st
      = Inr (?paths, emit (Info_downloaded (length ?paths)) st1)"
    using assms(1,2) loop paths by (simp add: download_products_def)
  have "caught (logs (emit (Info_downloaded (length ?paths)) st1))
      = caught (logs st) @ failures answers_before @ (get x ''_uid'', e) # failures answers_after"
    using c by (simp add: logs_emit caught_append failures_append)
  moreover have "world (emit (Info_downloaded (length ?paths)) st1) = w_end"
    using w by (simp add: world_emit)
  moreover note download_calls_entries [OF assms(3)] download_calls_entries [OF assms(7)]
  ultimately show ?thesis using run by blast
qed

text \<open>
  The batch \<open>[b, bad, c]\<close> against the example service: the paths of \<open>b\<close> and \<open>c\<close>, and
  the failure of \<open>bad\<close> in the log between them.
\<close>

theorem failed_download_skipped_witness:
  "ensure_dir example_service ''out'' (world example_state) = Inr 0 \<and>
   download_calls example_service (api_or_default example_creds None) ''out'' [entry_b] 0
     = ([(entry_b, Inr (ResDict [(''path'', PStr ''out/b'')]))], 1) \<and>
   truthy (get entry_bad ''_uid'') \<and>
   api_download example_service (api_or_default example_creds None) (get entry_bad ''_uid'') ''out'' 1
     = (Inl (OtherException ''timeout''), 2) \<and>
   is_Exception (OtherException ''timeout'') \<and>
   download_calls example_service (api_or_default example_creds None) ''out'' [entry_c] 2
     = ([(entry_c, Inr (ResDict [(''path'', PStr ''out/c'')]))], 3) \<and>
   (\<exists>st'. download_products example_service example_creds ([entry_b] @ entry_bad # [entry_c])
            ''out'' None example_state = Inr ([PStr ''out/b'', PStr ''out/c''], st') \<and>
          world st' = 3 \<and>
          caught (logs st') = [(PStr ''bad'', OtherException ''timeout'')]) \<and>
   download_products example_service example_creds [entry_b, entry_bad, entry_c] ''out''
     None example_state
     = Inr ([PStr ''out/b'', PStr ''out/c''],
            \<lparr>world = 3,
             logs = [Info_downloading PNone (PStr ''b''),
                     Info_downloading (PStr ''unreachable'') (PStr ''bad''),
                     Exception_failed (PStr ''bad'') (OtherException ''timeout''),
                     Info_downloading PNone (PStr ''c''), Info_downloaded 2]\<rparr>)"
proof -
  let ?api = "api_or_default example_creds None"
  let ?ab = "[(entry_b, Inr (ResDict [(''path'', PStr ''out/b'')]))]"
  let ?aa = "[(entry_c, Inr (ResDict [(''path'', PStr ''out/c'')]))]"
  have dir: "ensure_dir example_service ''out'' (world example_state) = Inr 0"
    by (simp add: example_dir example_state_def)
  have b: "download_calls example_service ?api ''out'' [entry_b] 0 = (?ab, 1)"
    by (simp add: example_uids example_download)
  have u: "truthy (get entry_bad ''_uid'')" by (simp add: example_uids)
  have f: "api_download example_service ?api (get entry_bad ''_uid'') ''out'' 1
     = (Inl (OtherException ''timeout''), 2)"
    by (simp add: example_uids example_download)
  have ex: "is_Exception (OtherException ''timeout'')" by simp
  have a: "download_calls example_service ?api ''out'' [entry_c] 2 = (?aa, 3)"
    by (simp add: example_uids example_download)
  have all: "\<forall>m e'. (m, Inl e') \<in> set (?ab @ ?aa) \<longrightarrow> is_Exception e'" by simp
  from failed_download_skipped [OF dir refl b u f ex a all]
  obtain st' where
    run: "download_products example_service example_creds ([entry_b] @ entry_bad # [entry_c])
            ''out'' None example_state
          = Inr (successful_paths ?ab @ successful_paths ?aa, st')"
    and w: "world st' = 3"
    and c: "caught (logs st') = caught (logs example_state) @ failures ?ab
              @ (get entry_bad ''_uid'', OtherException ''timeout'') # failures ?aa"
    by blast
  have ex1: "\<exists>st'. download_products example_service example_creds
            ([entry_b] @ entry_bad # [entry_c]) ''out'' None example_state
              = Inr ([PStr ''out/b'', PStr ''out/c''], st') \<and>
          world st' = 3 \<and>
          caught (logs st') = [(PStr ''bad'', OtherException ''timeout'')]"
    using run w c by (simp add: local_path_dict example_state_def example_uids)
  have full: "download_products example_service example_creds [entry_b, entry_bad, entry_c]
     ''out'' None example_state
     = Inr ([PStr ''out/b'', PStr ''out/c''],
            \<lparr>world = 3,
             logs = [Info_downloading PNone (PStr ''b''),
                     Info_downloading (PStr ''unreachable'') (PStr ''bad''),
                     Exception_failed (PStr ''bad'') (OtherException ''timeout''),
                     Info_downloading PNone (PStr ''c''), Info_downloaded 2]\<rparr>)"
    by (simp add: download_products_def example_dir example_state_def example_uids
          example_download emit_def local_path_dict Let_def)
  show ?thesis using dir b u f ex a ex1 full by blast
qed

subsection \<open>C6: an entry without an identifier\<close>

text \<open>
  Claim C6. An entry whose \<open>_uid\<close> is missing, \<open>None\<close> or empty is skipped: the loop
  logs a warning and goes on with the next entry, with the same paths and the same
  world. A batch returns, raises and leaves the world exactly as the batch of its
  entries that have an identifier does, so a path is only ever produced for such an
  entry; there are no more paths than entries with an identifier, and the skips logged
  are the entries without one, in order. In particular, for an entry without an
  identifier followed by an entry whose download succeeds, the result is the one path
  of the second entry and the log gains one skip, one download and the final count.
\<close>

theorem entry_without_identifier_skipped:
  "(\<not> truthy (get m ''_uid'') \<longrightarrow>
      download_loop ext api out_dir (m # rest) downloaded st =
      download_loop ext api out_dir rest downloaded (emit (Warning_missing_uid m) st)) \<and>
   without_logs (download_products ext creds products out_dir api_arg st)
     = without_logs (download_products ext creds
         (filter (\<lambda>m. truthy (get m ''_uid'')) products) out_dir api_arg st) \<and>
   (download_products ext creds products out_dir api_arg st = Inr (paths, st') \<longrightarrow>
      length paths \<le> length (filter (\<lambda>m. truthy (get m ''_uid'')) products) \<and>
      skipped (logs st') = skipped (logs st) @ filter (\<lambda>m. \<not> truthy (get m ''_uid'')) products) \<and>
   (\<not> truthy (get m0 ''_uid'') \<and> truthy (get m1 ''_uid'') \<and>
    ensure_dir ext out_dir (world st) = Inr w0 \<and>
    api_download ext (api_or_default creds api_arg) (get m1 ''_uid'') out_dir w0 = (Inr res, w1)
    \<longrightarrow>
      (\<exists>st2. download_products ext creds [m0, m1] out_dir api_arg st = Inr ([local_path res], st2) \<and>
         world st2 = w1 \<and>
         logs st2 = logs st @ [Warning_missing_uid m0,
                               Info_downloading (get m1 ''title'') (get m1 ''_uid''),
                               Info_downloaded 1]))"
proof (intro conjI impI)
  assume "\<not> truthy (get m ''_uid'')"
  then show "download_loop ext api out_dir (m # rest) downloaded st =
      download_loop ext api out_dir rest downloaded (emit (Warning_missing_uid m) st)"
    by (rule download_loop_skip)
next
  show "without_logs (download_products ext creds products out_dir api_arg st)
     = without_logs (download_products ext creds
         (filter (\<lambda>m. truthy (get m ''_uid'')) products) out_dir api_arg st)"
    by (rule download_products_without_logs)
next
  assume r: "download_products ext creds products out_dir api_arg st = Inr (paths, st')"
  from download_products_counts [OF r]
  show "length paths \<le> length (filter (\<lambda>m. truthy (get m ''_uid'')) products)"
    and "skipped (logs st') = skipped (logs st) @ filter (\<lambda>m. \<not> truthy (get m ''_uid'')) products"
    by simp_all
next
  assume h: "\<not> truthy (get m0 ''_uid'') \<and> truthy (get m1 ''_uid'') \<and>
    ensure_dir ext out_dir (world st) = Inr w0 \<and>
    api_download ext (api_or_default creds api_arg) (get m1 ''_uid'') out_dir w0 = (Inr res, w1)"
  then show "\<exists>st2. download_products ext creds [m0, m1] out_dir api_arg st = Inr ([local_path res], st2) \<and>
         world st2 = w1 \<and>
         logs st2 = logs st @ [Warning_missing_uid m0,
                               Info_downloading (get m1 ''title'') (get m1 ''_uid''),
                               Info_downloaded 1]"
    by (simp add: download_products_def Let_def emit_def)
qed

text \<open>The batch of the anonymous entry and \<open>b\<close> against the example service.\<close>

theorem entry_without_identifier_skipped_witness:
  "\<not> truthy (get entry_anonymous ''_uid'') \<and> truthy (get entry_b ''_uid'') \<and>
   ensure_dir example_service ''out'' (world example_state) = Inr 0 \<and>
   api_download example_service (api_or_default example_creds None) (get entry_b ''_uid'')
     ''out'' 0 = (Inr (ResDict [(''path'', PStr ''out/b'')]), 1) \<and>
   download_products example_service example_creds [entry_anonymous, entry_b] ''out'' None
     example_state
     = Inr ([PStr ''out/b''],
            \<lparr>world = 1, logs = [Warning_missing_uid entry_anonymous,
                                Info_downloading PNone (PStr ''b''), Info_downloaded 1]\<rparr>) \<and>
   length [PStr ''out/b''] \<le> length (filter (\<lambda>m. truthy (get m ''_uid'')) [entry_anonymous, entry_b]) \<and>
   skipped [Warning_missing_uid entry_anonymous, Info_downloading PNone (PStr ''b''),
            Info_downloaded 1] = [entry_anonymous] \<and>
   download_loop example_service (api_or_default example_creds None) ''out''
     (entry_anonymous # [entry_b]) [] example_state
     = download_loop example_service (api_or_default example_creds None) ''out'' [entry_b] []
         (emit (Warning_missing_uid entry_anonymous) example_state)"
proof -
  let ?st' = "\<lparr>world = 1::nat, logs = [Warning_missing_uid entry_anonymous,
                                Info_downloading PNone (PStr ''b''), Info_downloaded 1]\<rparr>"
  note t = entry_without_identifier_skipped [of entry_anonymous example_service
      "api_or_default example_creds None" "''out''" "[entry_b]" "[]" example_state example_creds
      "[entry_anonymous, entry_b]" None "[PStr ''out/b'']" ?st' entry_anonymous entry_b 0
      "ResDict [(''path'', PStr ''out/b'')]" 1]
  have n: "\<not> truthy (get entry_anonymous ''_uid'')" by (simp add: example_uids)
  have u: "truthy (get entry_b ''_uid'')" by (simp add: example_uids)
  have dir: "ensure_dir example_service ''out'' (world example_state) = Inr 0"
    by (simp add: example_dir example_state_def)
  have d: "api_download example_service (api_or_default example_creds None) (get entry_b ''_uid'')
     ''out'' 0 = (Inr (ResDict [(''path'', PStr ''out/b'')]), 1)"
    by (simp add: example_uids example_download)
  from t n have step: "download_loop example_service (api_or_default example_creds None) ''out''
     (entry_anonymous # [entry_b]) [] example_state
     = download_loop example_service (api_or_default example_creds None) ''out'' [entry_b] []
         (emit (Warning_missing_uid entry_anonymous) example_state)" by blast
  from t n u dir d obtain st2 where
    run: "download_products example_service example_creds [entry_anonymous, entry_b] ''out'' None
            example_state = Inr ([local_path (ResDict [(''path'', PStr ''out/b'')])], st2)"
    and w: "world st2 = 1"
    and l: "logs st2 = logs example_state @ [Warning_missing_uid entry_anonymous,
              Info_downloading (get entry_b ''title'') (get entry_b ''_uid''), Info_downloaded 1]"
    by blast
  from w l have st2: "st2 = ?st'" by (cases st2) (simp add: example_state_def example_uids)
  from run st2 have run': "download_products example_service example_creds
      [entry_anonymous, entry_b] ''out'' None example_state = Inr ([PStr ''out/b''], ?st')"
    by (simp add: local_path_dict)
  from t run' have counts: "length [PStr ''out/b'']
        \<le> length (filter (\<lambda>m. truthy (get m ''_uid'')) [entry_anonymous, entry_b]) \<and>
      skipped (logs ?st') = skipped (logs example_state)
        @ filter (\<lambda>m. \<not> truthy (get m ''_uid'')) [entry_anonymous, entry_b]"
    by blast
  show ?thesis using n u dir d run' counts step
    by (simp add: example_uids example_state_def)
qed

end
